theory Spec2Isabelle
  imports Main "HOL-Library.Sublist"
begin

section \<open>Python strings\<close>

text \<open>
  A Python \<open>str\<close> is modelled as a HOL \<open>string\<close>, read as the UTF-8 bytes of the text.
  Every character the program itself inspects (\<open>.\<close>, \<open>,\<close>, space, \<open>&\<close>, \<open>=\<close>, the letters of
  \<open>exit\<close> and of the two host names) is ASCII, one byte.
\<close>

text \<open>\<open>sep.join(xs)\<close>.\<close>

fun join :: "string \<Rightarrow> string list \<Rightarrow> string" where
  "join sep [] = []"
| "join sep [x] = x"
| "join sep (x # y # ys) = x @ sep @ join sep (y # ys)"

text \<open>
  \<open>s.replace(old, new)\<close>: the occurrences of \<open>old\<close> are found from the left and do not
  overlap. For an empty \<open>old\<close> Python puts \<open>new\<close> before every character and at the end.
\<close>

fun str_replace :: "string \<Rightarrow> string \<Rightarrow> string \<Rightarrow> string" where
  "str_replace [] new s = new @ concat (map (\<lambda>c. c # new) s)"
| "str_replace (p # ps) new [] = []"
| "str_replace (p # ps) new (c # cs) =
     (if prefix (p # ps) (c # cs)
      then new @ str_replace (p # ps) new (drop (length ps) cs)
      else c # str_replace (p # ps) new cs)"

section \<open>Exceptions\<close>

text \<open>
  \<open>KeyboardInterrupt\<close> and \<open>SystemExit\<close> derive from \<open>BaseException\<close> only;
  \<open>Error msg\<close> stands for any instance \<open>e\<close> of \<open>Exception\<close>, with \<open>str(e) = msg\<close>.
\<close>

datatype exn = KeyboardInterrupt | SystemExit | Error string

section \<open>YouTubeTranscriptHandler: the transcript text\<close>

text \<open>
  A caption entry of the transcript service: the spoken text and its timing. The type of
  the timing values is left open; the program never reads them.
\<close>

record 't caption =
  caption_text :: string
  start :: 't
  duration :: 't

text \<open>
  The two services behind the handler. \<open>fetch_captions vid\<close> is
  \<open>YouTubeTranscriptApi.get_transcript(vid, languages=['en'])\<close>, called with whatever
  \<open>extract_video_id\<close> returned (\<open>None\<close> included); \<open>restore_punctuation\<close> is the method of
  the punctuation model. Either may raise.
\<close>

record 't transcript_services =
  fetch_captions :: "string option \<Rightarrow> exn + 't caption list"
  restore_punctuation :: "string \<Rightarrow> exn + string"

definition get_transcript :: "('t, 'x) transcript_services_scheme \<Rightarrow> string option \<Rightarrow> exn + string" where
  "get_transcript sv video_id =
     (case fetch_captions sv video_id of
        Inl e \<Rightarrow> Inl e
      | Inr transcript \<Rightarrow> Inr (join '' '' (map caption_text transcript)))"

text \<open>The two chained \<open>replace\<close> calls of \<open>add_punctuation\<close>.\<close>

definition insert_line_breaks :: "string \<Rightarrow> string" where
  "insert_line_breaks punctuated_text =
     str_replace '', '' '',\<newline>'' (str_replace ''. '' ''.\<newline>'' punctuated_text)"

definition add_punctuation :: "('t, 'x) transcript_services_scheme \<Rightarrow> string \<Rightarrow> exn + string" where
  "add_punctuation sv txt =
     (case restore_punctuation sv txt of
        Inl e \<Rightarrow> Inl e
      | Inr punctuated_text \<Rightarrow> Inr (insert_line_breaks punctuated_text))"

text \<open>
  The line-break step described character by character: a space becomes a line break
  when the character before it satisfies \<open>P\<close>; \<open>prev\<close> is the character before the text.
\<close>

fun break_after :: "(char \<Rightarrow> bool) \<Rightarrow> char \<Rightarrow> string \<Rightarrow> string" where
  "break_after P prev [] = []"
| "break_after P prev (c # cs) =
     (if c = CHR '' '' \<and> P prev then CHR ''\<newline>'' else c) # break_after P c cs"

section \<open>The library functions under \<open>extract_video_id\<close>\<close>

text \<open>
  \<open>urlparse\<close> and \<open>parse_qs\<close> belong to Python's \<open>urllib.parse\<close>, not to the program.
  They are written out here after CPython 3.12, as far as the program's use of them
  goes: the splitting of a URL into its components, the \<open>hostname\<close> property, and the
  decoding of a query string. Two checks of \<open>urlsplit\<close> are parameters, because they depend
  on the interpreter's version and on its Unicode tables: the validation of a bracketed
  host, and the NFKC check of a netloc that is not ASCII. Each returns \<open>Some msg\<close> where
  the library raises \<open>ValueError(msg)\<close>. A percent-escape that is not well-formed UTF-8
  is decoded to U+FFFD, as \<open>parse_qs\<close> does with its default \<open>errors='replace'\<close>.
\<close>

record url_checks =
  check_bracketed_netloc :: "string \<Rightarrow> string option"
  checknetloc :: "string \<Rightarrow> string option"

definition lenient_checks :: url_checks where
  "lenient_checks = \<lparr>check_bracketed_netloc = (\<lambda>_. None), checknetloc = (\<lambda>_. None)\<rparr>"

definition is_upper :: "char \<Rightarrow> bool" where
  "is_upper c = (65 \<le> (of_char c :: nat) \<and> (of_char c :: nat) \<le> 90)"

definition is_lower :: "char \<Rightarrow> bool" where
  "is_lower c = (97 \<le> (of_char c :: nat) \<and> (of_char c :: nat) \<le> 122)"

definition is_digit :: "char \<Rightarrow> bool" where
  "is_digit c = (48 \<le> (of_char c :: nat) \<and> (of_char c :: nat) \<le> 57)"

definition is_ascii :: "char \<Rightarrow> bool" where
  "is_ascii c = ((of_char c :: nat) < 128)"

text \<open>\<open>str.lower\<close> on the ASCII letters; other bytes are kept.\<close>

definition lower_char :: "char \<Rightarrow> char" where
  "lower_char c = (if is_upper c then char_of ((of_char c :: nat) + 32) else c)"

definition lower :: "string \<Rightarrow> string" where
  "lower s = map lower_char s"

definition scheme_char :: "char \<Rightarrow> bool" where
  "scheme_char c = (is_lower c \<or> is_upper c \<or> is_digit c \<or> c \<in> set ''+-.'')"

text \<open>\<open>s.partition(c)\<close> for a one-character separator: before, found, after.\<close>

definition partition_chr :: "char \<Rightarrow> string \<Rightarrow> string \<times> bool \<times> string" where
  "partition_chr c s =
     (takeWhile (\<lambda>x. x \<noteq> c) s, c \<in> set s, drop 1 (dropWhile (\<lambda>x. x \<noteq> c) s))"

text \<open>The third component of \<open>s.rpartition(c)\<close>: what follows the last \<open>c\<close>, or all of \<open>s\<close>.\<close>

definition after_last :: "char \<Rightarrow> string \<Rightarrow> string" where
  "after_last c s = rev (takeWhile (\<lambda>x. x \<noteq> c) (rev s))"

record parse_result =
  scheme :: string
  netloc :: string
  path :: string
  params :: string
  query :: string
  fragment :: string

text \<open>The scheme is split off when the text before the first colon is a scheme name.\<close>

definition split_scheme :: "string \<Rightarrow> string \<times> string" where
  "split_scheme url =
     (let pre = takeWhile (\<lambda>x. x \<noteq> CHR '':'') url
      in if CHR '':'' \<in> set url \<and> pre \<noteq> [] \<and> (is_lower (hd pre) \<or> is_upper (hd pre))
            \<and> list_all scheme_char pre
         then (lower pre, drop (Suc (length pre)) url)
         else ([], url))"

text \<open>\<open>_splitnetloc(url, 2)\<close>: the netloc runs from index 2 to the first of \<open>/?#\<close>.\<close>

definition splitnetloc :: "string \<Rightarrow> string \<times> string" where
  "splitnetloc url =
     (takeWhile (\<lambda>x. x \<notin> set ''/?#'') (drop 2 url),
      dropWhile (\<lambda>x. x \<notin> set ''/?#'') (drop 2 url))"

text \<open>\<open>url.split(c, 1)\<close> when \<open>c\<close> occurs in \<open>url\<close>; otherwise the second part is empty.\<close>

definition split_at_first :: "char \<Rightarrow> string \<Rightarrow> string \<times> string" where
  "split_at_first c url =
     (if c \<in> set url
      then (takeWhile (\<lambda>x. x \<noteq> c) url, drop 1 (dropWhile (\<lambda>x. x \<noteq> c) url))
      else (url, []))"

definition urlsplit :: "url_checks \<Rightarrow> string \<Rightarrow> exn + parse_result" where
  "urlsplit ck url0 =
     (let url1 = dropWhile (\<lambda>c. (of_char c :: nat) \<le> 32) url0;
          url2 = filter (\<lambda>c. c \<notin> set [CHR 0x09, CHR 0x0D, CHR 0x0A]) url1;
          (sch, url3) = split_scheme url2;
          has_netloc = (take 2 url3 = ''//'');
          (loc, url4) = (if has_netloc then splitnetloc url3 else ([], url3));
          (url5, frag) = split_at_first (CHR ''#'') url4;
          (url6, qry) = split_at_first (CHR ''?'') url5
      in if has_netloc \<and> ((CHR ''['' \<in> set loc) \<noteq> (CHR '']'' \<in> set loc))
         then Inl (Error ''Invalid IPv6 URL'')
         else case (if has_netloc \<and> CHR ''['' \<in> set loc \<and> CHR '']'' \<in> set loc
                    then check_bracketed_netloc ck loc else None) of
           Some msg \<Rightarrow> Inl (Error msg)
         | None \<Rightarrow>
             (case (if loc = [] \<or> list_all is_ascii loc then None else checknetloc ck loc) of
                Some msg \<Rightarrow> Inl (Error msg)
              | None \<Rightarrow>
                  Inr \<lparr>scheme = sch, netloc = loc, path = url6, params = [],
                       query = qry, fragment = frag\<rparr>))"

definition uses_params :: "string list" where
  "uses_params = ['''', ''ftp'', ''hdl'', ''prospero'', ''http'', ''imap'', ''https'', ''shttp'',
     ''rtsp'', ''rtsps'', ''rtspu'', ''sip'', ''sips'', ''mms'', ''sftp'', ''tel'']"

text \<open>
  \<open>_splitparams\<close>: the parameters follow the first \<open>;\<close> of the last path segment. Without
  a \<open>/\<close> and without a \<open>;\<close> the search returns \<open>-1\<close> and the slices are \<open>url[:-1]\<close> and \<open>url\<close>
  (\<open>urlparse\<close> never calls it so).
\<close>

definition splitparams :: "string \<Rightarrow> string \<times> string" where
  "splitparams url =
     (let seg = after_last (CHR ''/'') url;
          front = take (length url - length seg) url
      in if CHR ''/'' \<in> set url
         then (if CHR '';'' \<in> set seg
               then (front @ takeWhile (\<lambda>x. x \<noteq> CHR '';'') seg,
                     drop 1 (dropWhile (\<lambda>x. x \<noteq> CHR '';'') seg))
               else (url, []))
         else (if CHR '';'' \<in> set url
               then (takeWhile (\<lambda>x. x \<noteq> CHR '';'') url,
                     drop 1 (dropWhile (\<lambda>x. x \<noteq> CHR '';'') url))
               else (butlast url, url)))"

definition urlparse :: "url_checks \<Rightarrow> string \<Rightarrow> exn + parse_result" where
  "urlparse ck url =
     (case urlsplit ck url of
        Inl e \<Rightarrow> Inl e
      | Inr r \<Rightarrow>
          if scheme r \<in> set uses_params \<and> CHR '';'' \<in> set (path r)
          then Inr (r\<lparr>path := fst (splitparams (path r)), params := snd (splitparams (path r))\<rparr>)
          else Inr r)"

text \<open>
  The \<open>hostname\<close> property: the netloc without user information and port, the part
  before a \<open>%\<close> (an IPv6 zone) in lower case; \<open>None\<close> when it is empty.
\<close>

definition hostinfo_host :: "string \<Rightarrow> string" where
  "hostinfo_host loc =
     (let hostinfo = after_last (CHR ''@'') loc;
          (_, have_open_br, bracketed) = partition_chr (CHR ''['') hostinfo
      in if have_open_br then fst (partition_chr (CHR '']'') bracketed)
         else fst (partition_chr (CHR '':'') hostinfo))"

definition hostname :: "parse_result \<Rightarrow> string option" where
  "hostname r =
     (let h = hostinfo_host (netloc r)
      in if h = [] then None
         else (let (host, percent, zone) = partition_chr (CHR ''%'') h
               in Some (lower host @ (if percent then ''%'' else []) @ zone)))"

text \<open>\<open>s.split(c)\<close> for a one-character separator: at least one field.\<close>

fun split_chr :: "char \<Rightarrow> string \<Rightarrow> string list" where
  "split_chr c [] = [[]]"
| "split_chr c (x # xs) =
     (if x = c then [] # split_chr c xs
      else (case split_chr c xs of f # fs \<Rightarrow> (x # f) # fs | [] \<Rightarrow> [[x]]))"

definition is_hex :: "char \<Rightarrow> bool" where
  "is_hex c = (is_digit c \<or> c \<in> set ''abcdefABCDEF'')"

definition hex_val :: "char \<Rightarrow> nat" where
  "hex_val c =
     (if is_digit c then of_char c - 48
      else if is_lower c then of_char c - 87
      else of_char c - 55)"

text \<open>
  \<open>unquote_to_bytes\<close> on ASCII text: \<open>%XX\<close> with two hexadecimal digits is the byte \<open>XX\<close>;
  any other \<open>%\<close> stays.
\<close>

fun unquote_to_bytes :: "string \<Rightarrow> string" where
  "unquote_to_bytes (c # h1 # h2 # r) =
     (if c = CHR ''%'' \<and> is_hex h1 \<and> is_hex h2
      then char_of (16 * hex_val h1 + hex_val h2) # unquote_to_bytes r
      else c # unquote_to_bytes (h1 # h2 # r))"
| "unquote_to_bytes (c # cs) = c # unquote_to_bytes cs"
| "unquote_to_bytes [] = []"

text \<open>
  \<open>bytes.decode('utf-8', 'replace')\<close>, the result again as UTF-8: well-formed sequences
  are kept; a byte that cannot start a sequence, and the longest beginning of a sequence
  that its next byte (or the end of the data) breaks off, each become U+FFFD.
\<close>

definition fffd :: string where
  "fffd = [CHR 0xEF, CHR 0xBF, CHR 0xBD]"

definition seq_len :: "char \<Rightarrow> nat" where
  "seq_len b =
     (if 0xC2 \<le> (of_char b :: nat) \<and> (of_char b :: nat) \<le> 0xDF then 2
      else if 0xE0 \<le> (of_char b :: nat) \<and> (of_char b :: nat) \<le> 0xEF then 3
      else if 0xF0 \<le> (of_char b :: nat) \<and> (of_char b :: nat) \<le> 0xF4 then 4
      else 0)"

definition is_cont :: "char \<Rightarrow> bool" where
  "is_cont c = (0x80 \<le> (of_char c :: nat) \<and> (of_char c :: nat) \<le> 0xBF)"

definition second_ok :: "char \<Rightarrow> char \<Rightarrow> bool" where
  "second_ok b c =
     (if b = CHR 0xE0 then 0xA0 \<le> (of_char c :: nat) \<and> (of_char c :: nat) \<le> 0xBF
      else if b = CHR 0xED then 0x80 \<le> (of_char c :: nat) \<and> (of_char c :: nat) \<le> 0x9F
      else if b = CHR 0xF0 then 0x90 \<le> (of_char c :: nat) \<and> (of_char c :: nat) \<le> 0xBF
      else if b = CHR 0xF4 then 0x80 \<le> (of_char c :: nat) \<and> (of_char c :: nat) \<le> 0x8F
      else is_cont c)"

fun utf8_replace :: "string \<Rightarrow> string" where
  "utf8_replace [] = []"
| "utf8_replace (b # bs) =
     (if (of_char b :: nat) < 0x80 then b # utf8_replace bs
      else if seq_len b = 0 then fffd @ utf8_replace bs
      else (case bs of
              [] \<Rightarrow> fffd
            | c # cs \<Rightarrow>
                if \<not> second_ok b c then fffd @ utf8_replace bs
                else if seq_len b = 2 then b # c # utf8_replace cs
                else (case cs of
                        [] \<Rightarrow> fffd
                      | d # ds \<Rightarrow>
                          if \<not> is_cont d then fffd @ utf8_replace cs
                          else if seq_len b = 3 then b # c # d # utf8_replace ds
                          else (case ds of
                                  [] \<Rightarrow> fffd
                                | e # es \<Rightarrow>
                                    if \<not> is_cont e then fffd @ utf8_replace ds
                                    else b # c # d # e # utf8_replace es))))"

text \<open>
  \<open>unquote\<close> with its defaults (\<open>utf-8\<close>, \<open>replace\<close>): every longest run of ASCII characters is
  percent-decoded and then decoded as UTF-8; the characters between the runs are kept.
  \<open>run\<close> is the ASCII run read so far.
\<close>

fun unquote_runs :: "string \<Rightarrow> string \<Rightarrow> string" where
  "unquote_runs run [] = utf8_replace (unquote_to_bytes run)"
| "unquote_runs run (c # cs) =
     (if is_ascii c then unquote_runs (run @ [c]) cs
      else utf8_replace (unquote_to_bytes run) @ c # unquote_runs [] cs)"

definition unquote :: "string \<Rightarrow> string" where
  "unquote s = unquote_runs [] s"

definition plus_to_space :: "string \<Rightarrow> string" where
  "plus_to_space s = map (\<lambda>c. if c = CHR ''+'' then CHR '' '' else c) s"

text \<open>
  The loop of \<open>parse_qsl\<close> with its defaults (\<open>keep_blank_values=False\<close>,
  \<open>strict_parsing=False\<close>): a field without \<open>=\<close> or with an empty value is skipped.
\<close>

fun parse_fields :: "string list \<Rightarrow> (string \<times> string) list" where
  "parse_fields [] = []"
| "parse_fields (name_value # rest) =
     (if name_value = [] then parse_fields rest
      else if CHR ''='' \<notin> set name_value then parse_fields rest
      else (let (nm, val) = split_at_first (CHR ''='') name_value
            in if val \<noteq> []
               then (unquote (plus_to_space nm), unquote (plus_to_space val)) # parse_fields rest
               else parse_fields rest))"

definition parse_qsl :: "string \<Rightarrow> (string \<times> string) list" where
  "parse_qsl qs = (if qs = [] then [] else parse_fields (split_chr (CHR ''&'') qs))"

text \<open>\<open>parse_qs\<close> collects the values of each name in a dictionary of lists.\<close>

definition add_value :: "(string \<rightharpoonup> string list) \<Rightarrow> string \<times> string \<Rightarrow> (string \<rightharpoonup> string list)" where
  "add_value parsed_result nv =
     (case parsed_result (fst nv) of
        Some vs \<Rightarrow> parsed_result(fst nv \<mapsto> vs @ [snd nv])
      | None \<Rightarrow> parsed_result(fst nv \<mapsto> [snd nv]))"

definition parse_qs :: "string \<Rightarrow> (string \<rightharpoonup> string list)" where
  "parse_qs qs = foldl add_value Map.empty (parse_qsl qs)"

section \<open>YouTubeTranscriptHandler: the video identifier\<close>

text \<open>
  \<open>parse_qs(query).get('v', [None])[0]\<close>: the default is a one-element list holding
  \<open>None\<close>; indexing an empty list would raise \<open>IndexError\<close>.
\<close>

definition extract_video_id :: "url_checks \<Rightarrow> string \<Rightarrow> exn + string option" where
  "extract_video_id ck url =
     (case urlparse ck url of
        Inl e \<Rightarrow> Inl e
      | Inr parsed_url \<Rightarrow>
          if hostname parsed_url = Some ''www.youtube.com''
          then (case parse_qs (query parsed_url) ''v'' of
                  None \<Rightarrow> Inr None
                | Some [] \<Rightarrow> Inl (Error ''list index out of range'')
                | Some (v # _) \<Rightarrow> Inr (Some v))
          else if hostname parsed_url = Some ''youtu.be''
          then Inr (Some (drop 1 (path parsed_url)))
          else Inr None)"

section \<open>LLMHandler\<close>

text \<open>
  The question handed to \<open>prepare_prompt\<close> is annotated \<open>str\<close>; the values that reach it
  are a string (typed in the chat loop) and a list of strings (the starred rest of a menu
  entry). An f-string formats either with \<open>str\<close>.
\<close>

datatype question = Str string | StrList "string list"

definition hex_digit :: "nat \<Rightarrow> char" where
  "hex_digit n = ''0123456789abcdef'' ! (n mod 16)"

text \<open>
  \<open>repr\<close> of a string: single quotes, unless the string holds a single quote and no
  double quote; the quote and the backslash are escaped, control characters are written
  \<open>\t\<close>, \<open>\n\<close>, \<open>\r\<close> or \<open>\xNN\<close>. Bytes of non-ASCII text are kept.
\<close>

definition repr_char :: "char \<Rightarrow> char \<Rightarrow> string" where
  "repr_char quote c =
     (if c = quote \<or> c = CHR 0x5C then [CHR 0x5C, c]
      else if c = CHR 0x09 then [CHR 0x5C, CHR ''t'']
      else if c = CHR 0x0A then [CHR 0x5C, CHR ''n'']
      else if c = CHR 0x0D then [CHR 0x5C, CHR ''r'']
      else if (of_char c :: nat) < 32 \<or> (of_char c :: nat) = 127
      then [CHR 0x5C, CHR ''x'', hex_digit ((of_char c :: nat) div 16), hex_digit (of_char c)]
      else [c])"

definition repr_str :: "string \<Rightarrow> string" where
  "repr_str s =
     (let quote = (if CHR 0x27 \<in> set s \<and> CHR 0x22 \<notin> set s then CHR 0x22 else CHR 0x27)
      in [quote] @ concat (map (repr_char quote) s) @ [quote])"

definition repr_list :: "string list \<Rightarrow> string" where
  "repr_list xs = ''['' @ join '', '' (map repr_str xs) @ '']''"

fun str_of :: "question \<Rightarrow> string" where
  "str_of (Str s) = s"
| "str_of (StrList xs) = repr_list xs"

text \<open>The fixed text of the template, between its three fields.\<close>

definition prompt_intro :: string where
  "prompt_intro = ''\<newline>        You are an expert answering based only on the provided video transcript.\<newline>        Transcript: \<newline>\<newline>        ''"

definition prompt_history_label :: string where
  "prompt_history_label = ''\<newline>\<newline>        Chat history:\<newline>        ''"

definition prompt_question_label :: string where
  "prompt_question_label = ''\<newline>\<newline>        Question: ''"

definition prompt_rules :: string where
  "prompt_rules = ''\<newline>\<newline>        Answer in detail using only the transcript and chat history.\<newline>        If a question is irrelevant to the video, answer with \"I'm sorry, I can't answer that question as it is not relevant to the video content.\"\<newline>        If the answer is absent in the video, respond with \"I'm sorry, I can't answer that question as the answer is not present in the video content.\"\<newline>        ''"

definition prepare_prompt :: "string \<Rightarrow> question \<Rightarrow> (question \<times> string) list \<Rightarrow> string" where
  "prepare_prompt txt question chat_history =
     (let history = join ''\<newline>''
            (map (\<lambda>(q, a). ''Q: '' @ str_of q @ ''\<newline>A: '' @ a) chat_history)
      in prompt_intro @ txt @ prompt_history_label @ history
         @ prompt_question_label @ str_of question @ prompt_rules)"

text \<open>
  The history section as the lines it is made of, in the order of the history: the
  reading of the specification, against which \<open>prepare_prompt\<close> is compared.
\<close>

definition history_lines :: "(question \<times> string) list \<Rightarrow> string list" where
  "history_lines h = concat (map (\<lambda>(q, a). [''Q: '' @ str_of q, ''A: '' @ a]) h)"

text \<open>
  \<open>str.strip()\<close> removes, at both ends, the characters for which \<open>str.isspace\<close> holds.
  These are the characters below, each as its UTF-8 bytes: the ASCII white space
  (U+0009 to U+000D, U+001C to U+0020), U+0085, U+00A0, U+1680, U+2000 to U+200A, U+2028,
  U+2029, U+202F, U+205F and U+3000.
\<close>

definition white_space :: "string list" where
  "white_space =
     [[CHR 0x09], [CHR 0x0A], [CHR 0x0B], [CHR 0x0C], [CHR 0x0D], [CHR 0x1C], [CHR 0x1D],
      [CHR 0x1E], [CHR 0x1F], [CHR 0x20], [CHR 0xC2, CHR 0x85], [CHR 0xC2, CHR 0xA0],
      [CHR 0xE1, CHR 0x9A, CHR 0x80], [CHR 0xE2, CHR 0x80, CHR 0x80],
      [CHR 0xE2, CHR 0x80, CHR 0x81], [CHR 0xE2, CHR 0x80, CHR 0x82],
      [CHR 0xE2, CHR 0x80, CHR 0x83], [CHR 0xE2, CHR 0x80, CHR 0x84],
      [CHR 0xE2, CHR 0x80, CHR 0x85], [CHR 0xE2, CHR 0x80, CHR 0x86],
      [CHR 0xE2, CHR 0x80, CHR 0x87], [CHR 0xE2, CHR 0x80, CHR 0x88],
      [CHR 0xE2, CHR 0x80, CHR 0x89], [CHR 0xE2, CHR 0x80, CHR 0x8A],
      [CHR 0xE2, CHR 0x80, CHR 0xA8], [CHR 0xE2, CHR 0x80, CHR 0xA9],
      [CHR 0xE2, CHR 0x80, CHR 0xAF], [CHR 0xE2, CHR 0x81, CHR 0x9F],
      [CHR 0xE3, CHR 0x80, CHR 0x80]]"

text \<open>The number of bytes of the sequence of \<open>seqs\<close> that \<open>s\<close> starts with; 0 when there is none.\<close>

definition lead_len :: "string list \<Rightarrow> string \<Rightarrow> nat" where
  "lead_len seqs s = (case filter (\<lambda>w. prefix w s) seqs of [] \<Rightarrow> 0 | w # _ \<Rightarrow> length w)"

function strip_front :: "string list \<Rightarrow> string \<Rightarrow> string" where
  "strip_front seqs s =
     (if lead_len seqs s = 0 \<or> s = [] then s
      else strip_front seqs (drop (lead_len seqs s) s))"
  by pat_completeness auto
termination
  by (relation "measure (\<lambda>(seqs, s). length s)") auto

declare strip_front.simps [simp del]

definition lstrip :: "string \<Rightarrow> string" where
  "lstrip s = strip_front white_space s"

definition rstrip :: "string \<Rightarrow> string" where
  "rstrip s = rev (strip_front (map rev white_space) (rev s))"

definition strip :: "string \<Rightarrow> string" where
  "strip s = rstrip (lstrip s)"

text \<open>
  The chat backend: \<open>llm_content log prompt\<close> is \<open>self.llm.invoke(prompt).content\<close>, or the
  exception the call raises; \<open>log\<close> holds the earlier exchanges, so that the reply may
  depend on them. A \<open>KeyboardInterrupt\<close> raised here is the user's interrupt during the
  call.
\<close>

type_synonym exchange = "string \<times> (exn + string)"

record 't services = "'t transcript_services" +
  url_lib :: url_checks
  llm_content :: "exchange list \<Rightarrow> string \<Rightarrow> exn + string"

definition invoke :: "('t, 'x) services_scheme \<Rightarrow> exchange list \<Rightarrow> string \<Rightarrow> exn + string" where
  "invoke sv log prompt =
     (case llm_content sv log prompt of Inl e \<Rightarrow> Inl e | Inr content \<Rightarrow> Inr (strip content))"

section \<open>VideoCLIApp\<close>

text \<open>
  The state is the two fields of the application object and the world it talks to:
  the lines still to be read on standard input (an interrupt at a read is an event of
  its own; reading past the end raises \<open>EOFError\<close>), the texts written to standard output
  in order, and the log of the exchanges with the chat backend. Colours and the spinner
  are not part of the output modelled.
\<close>

datatype event = Line string | Interrupt

record app =
  transcript :: string
  chat_history :: "(question \<times> string) list"
  stdin :: "event list"
  stdout :: "string list"
  llm_log :: "exchange list"

definition init_app :: "event list \<Rightarrow> app" where
  "init_app inp = \<lparr>transcript = [], chat_history = [], stdin = inp, stdout = [], llm_log = []\<rparr>"

definition print_py :: "string \<Rightarrow> app \<Rightarrow> app" where
  "print_py s a = a\<lparr>stdout := stdout a @ [s @ ''\<newline>'']\<rparr>"

definition input_py :: "string \<Rightarrow> app \<Rightarrow> (exn + string) \<times> app" where
  "input_py prompt a =
     (let a1 = a\<lparr>stdout := stdout a @ [prompt]\<rparr>
      in case stdin a of
           [] \<Rightarrow> (Inl (Error ''EOF when reading a line''), a1)
         | Interrupt # rest \<Rightarrow> (Inl KeyboardInterrupt, a1\<lparr>stdin := rest\<rparr>)
         | Line l # rest \<Rightarrow> (Inr l, a1\<lparr>stdin := rest\<rparr>))"

definition fetch_video_transcript :: "('t, 'x) services_scheme \<Rightarrow> string \<Rightarrow> exn + string" where
  "fetch_video_transcript sv video_url =
     (case extract_video_id (url_lib sv) video_url of
        Inl e \<Rightarrow> Inl e
      | Inr video_id \<Rightarrow>
          (case get_transcript sv video_id of
             Inl e \<Rightarrow> Inl e
           | Inr t \<Rightarrow> add_punctuation sv t))"

definition chat_with_ai :: "('t, 'x) services_scheme \<Rightarrow> string \<Rightarrow> question \<Rightarrow> app \<Rightarrow> (exn + string) \<times> app" where
  "chat_with_ai sv t question a =
     (let prompt = prepare_prompt t question (chat_history a);
          reply = llm_content sv (llm_log a) prompt;
          a1 = a\<lparr>llm_log := llm_log a @ [(prompt, reply)]\<rparr>
      in case invoke sv (llm_log a) prompt of
           Inl e \<Rightarrow> (Inl e, a1)
         | Inr answer \<Rightarrow>
             (Inr answer, a1\<lparr>chat_history := chat_history a1 @ [(question, answer)]\<rparr>))"

definition ask_ai_single_question :: "('t, 'x) services_scheme \<Rightarrow> question \<Rightarrow> app \<Rightarrow> (exn + unit) \<times> app" where
  "ask_ai_single_question sv question a =
     (case chat_with_ai sv (transcript a) question a of
        (Inl e, a1) \<Rightarrow> (Inl e, a1)
      | (Inr answer, a1) \<Rightarrow> (Inr (), print_py answer a1))"

definition print_transcript :: "app \<Rightarrow> (exn + unit) \<times> app" where
  "print_transcript a =
     (Inr (), print_py (''\<newline>Punctuated Transcript:\<newline>'' @ '' '' @ transcript a) a)"

definition change_video :: "('t, 'x) services_scheme \<Rightarrow> app \<Rightarrow> (exn + unit) \<times> app" where
  "change_video sv a =
     (case input_py ''Please enter the YouTube video URL: '' a of
        (Inl e, a1) \<Rightarrow> (Inl e, a1)
      | (Inr url, a1) \<Rightarrow>
          (case fetch_video_transcript sv url of
             Inl e \<Rightarrow> (Inl e, a1)
           | Inr t \<Rightarrow> (Inr (), a1\<lparr>transcript := t\<rparr>)))"

definition exit_app :: "app \<Rightarrow> (exn + unit) \<times> app" where
  "exit_app a = (Inl SystemExit, print_py ''Exiting...'' a)"

text \<open>Reading a line consumes one event; nothing else touches standard input.\<close>

lemma input_py_stdin_less:
  "input_py prompt a = (Inr l, a1) \<Longrightarrow> length (stdin a1) < length (stdin a)"
  by (auto simp: input_py_def Let_def split: list.splits event.splits)

lemma input_py_stdin_le:
  "input_py prompt a = (r, a1) \<Longrightarrow> length (stdin a1) \<le> length (stdin a)"
  by (auto simp: input_py_def Let_def split: list.splits event.splits)

lemma chat_with_ai_stdin:
  "chat_with_ai sv t q a = (r, a1) \<Longrightarrow> stdin a1 = stdin a"
  by (auto simp: chat_with_ai_def Let_def split: sum.splits)

text \<open>
  The \<open>while True\<close> of \<open>_chat_with_ai_loop\<close>: it ends at \<open>break\<close> (\<open>Inr ()\<close>) or with an
  exception, of \<open>input\<close> or of the assistant call.
\<close>

function chat_loop :: "('t, 'x) services_scheme \<Rightarrow> app \<Rightarrow> (exn + unit) \<times> app" where
  "chat_loop sv a =
     (case input_py ''Enter your question (or type 'exit' or CTRL+C to go back): '' a of
        (Inl e, a1) \<Rightarrow> (Inl e, a1)
      | (Inr question, a1) \<Rightarrow>
          if lower question = ''exit'' then (Inr (), a1)
          else (case chat_with_ai sv (transcript a1) (Str question) a1 of
                  (Inl e, a2) \<Rightarrow> (Inl e, a2)
                | (Inr answer, a2) \<Rightarrow>
                    chat_loop sv (print_py (''\<newline>Answer:\<newline>'' @ '' '' @ answer) a2)))"
  by pat_completeness auto
termination
proof (relation "measure (\<lambda>(sv, a). length (stdin a))")
  show "wf (measure (\<lambda>(sv :: ('t, 'x) services_scheme, a). length (stdin a)))"
    by simp
next
  fix sv :: "('t, 'x) services_scheme" and a x1 a1 question x2 a2 answer
  assume "(x1, a1) = input_py ''Enter your question (or type 'exit' or CTRL+C to go back): '' a"
    and "x1 = Inr question"
    and "(x2, a2) = chat_with_ai sv (transcript a1) (Str question) a1"
  then have "length (stdin a1) < length (stdin a)" and "stdin a2 = stdin a1"
    using input_py_stdin_less[of _ a question a1] chat_with_ai_stdin[of sv _ _ a1 x2 a2]
    by simp_all
  then show "((sv, print_py (''\<newline>Answer:\<newline>'' @ '' '' @ answer) a2), (sv, a)) \<in> measure (\<lambda>(sv, a). length (stdin a))"
    by (simp add: print_py_def)
qed

declare chat_loop.simps [simp del]

text \<open>The \<open>try\<close> around the loop catches \<open>KeyboardInterrupt\<close> and nothing else.\<close>

definition chat_with_ai_loop :: "('t, 'x) services_scheme \<Rightarrow> app \<Rightarrow> (exn + unit) \<times> app" where
  "chat_with_ai_loop sv a =
     (case chat_loop sv a of
        (Inl KeyboardInterrupt, a1) \<Rightarrow>
          (Inr (), print_py ''\<newline>Chat interrupted. Returning to menu...'' a1)
      | r \<Rightarrow> r)"

text \<open>
  The menu table, in the order of the dictionary: key, description, action and the rest
  of the tuple (the canned question, when there is one).
\<close>

datatype action = PrintTranscript | AskAiSingleQuestion | ChatWithAiLoop | ChangeVideo | ExitApp

definition menu_options :: "(string \<times> string \<times> action \<times> string list) list" where
  "menu_options =
     [(''1'', ''Print Punctuated Transcript'', PrintTranscript, []),
      (''2'', ''Summarize Transcript'', AskAiSingleQuestion, [''provide a summary of the video content'']),
      (''3'', ''Chat with AI Assistant'', ChatWithAiLoop, []),
      (''4'', ''FAQ'', AskAiSingleQuestion, [''provide a 5 question FAQ based on the video content'']),
      (''5'', ''Table of Contents'', AskAiSingleQuestion, [''provide a table of contents based on the video content'']),
      (''6'', ''Change Video'', ChangeVideo, []),
      (''0'', ''Exit'', ExitApp, [])]"

text \<open>
  \<open>action()\<close> and \<open>action(question)\<close>. A bound method called with the wrong number of
  arguments raises \<open>TypeError\<close>; the table never leads there.
\<close>

definition call0 :: "('t, 'x) services_scheme \<Rightarrow> action \<Rightarrow> app \<Rightarrow> (exn + unit) \<times> app" where
  "call0 sv act a =
     (case act of
        PrintTranscript \<Rightarrow> print_transcript a
      | ChatWithAiLoop \<Rightarrow> chat_with_ai_loop sv a
      | ChangeVideo \<Rightarrow> change_video sv a
      | ExitApp \<Rightarrow> exit_app a
      | AskAiSingleQuestion \<Rightarrow> (Inl (Error ''missing 1 required positional argument''), a))"

definition call1 :: "('t, 'x) services_scheme \<Rightarrow> action \<Rightarrow> string list \<Rightarrow> app \<Rightarrow> (exn + unit) \<times> app" where
  "call1 sv act question a =
     (case act of
        AskAiSingleQuestion \<Rightarrow> ask_ai_single_question sv (StrList question) a
      | _ \<Rightarrow> (Inl (Error ''takes 1 positional argument but 2 were given''), a))"

definition print_menu :: "app \<Rightarrow> app" where
  "print_menu a =
     foldl (\<lambda>a1 (key, description, _). print_py (key @ ''. '' @ description) a1)
       (print_py ''\<newline>Menu:'' a) menu_options"

text \<open>One pass through the body of the \<open>while True\<close> of \<open>_menu_loop\<close>.\<close>

definition menu_loop_body :: "('t, 'x) services_scheme \<Rightarrow> app \<Rightarrow> (exn + unit) \<times> app" where
  "menu_loop_body sv a =
     (case input_py ''Choose an option: '' (print_menu a) of
        (Inl e, a1) \<Rightarrow> (Inl e, a1)
      | (Inr choice, a1) \<Rightarrow>
          (case map_of menu_options choice of
             Some (_, act, question) \<Rightarrow>
               if question \<noteq> [] then call1 sv act question a1 else call0 sv act a1
           | None \<Rightarrow> (Inr (), print_py ''Invalid choice. Please try again.'' a1)))"

lemma print_py_stdin: "stdin (print_py s a) = stdin a"
  by (simp add: print_py_def)

lemma print_menu_stdin: "stdin (print_menu a) = stdin a"
  by (simp add: print_menu_def menu_options_def print_py_def)

lemma chat_loop_stdin_le:
  "chat_loop sv a = (r, a') \<Longrightarrow> length (stdin a') \<le> length (stdin a)"
proof (induction sv a arbitrary: r a' rule: chat_loop.induct)
  case (1 sv a)
  obtain x1 a1 where inp: "input_py ''Enter your question (or type 'exit' or CTRL+C to go back): '' a = (x1, a1)"
    by (cases "input_py ''Enter your question (or type 'exit' or CTRL+C to go back): '' a")
  have le1: "length (stdin a1) \<le> length (stdin a)"
    using inp by (rule input_py_stdin_le)
  show ?case
  proof (cases x1)
    case (Inl e)
    with 1(2) inp le1 show ?thesis by (subst (asm) chat_loop.simps) auto
  next
    case (Inr question)
    show ?thesis
    proof (cases "lower question = ''exit''")
      case True
      with 1(2) inp le1 Inr show ?thesis by (subst (asm) chat_loop.simps) auto
    next
      case False
      obtain x2 a2 where cw: "chat_with_ai sv (transcript a1) (Str question) a1 = (x2, a2)"
        by (cases "chat_with_ai sv (transcript a1) (Str question) a1")
      have eq2: "stdin a2 = stdin a1" using cw by (rule chat_with_ai_stdin)
      show ?thesis
      proof (cases x2)
        case (Inl e)
        with 1(2) inp le1 Inr False cw eq2 show ?thesis
          by (subst (asm) chat_loop.simps) auto
      next
        case (Inr answer)
        have rec: "chat_loop sv (print_py (''\<newline>Answer:\<newline>'' @ '' '' @ answer) a2) = (r, a')"
          using 1(2) inp \<open>x1 = Inr question\<close> False cw Inr
          by (subst (asm) chat_loop.simps) auto
        have "length (stdin a') \<le> length (stdin (print_py (''\<newline>Answer:\<newline>'' @ '' '' @ answer) a2))"
          using 1(1)[OF inp[symmetric] \<open>x1 = Inr question\<close> False cw[symmetric] Inr rec] .
        with eq2 le1 show ?thesis by (simp add: print_py_stdin)
      qed
    qed
  qed
qed

lemma chat_with_ai_loop_stdin_le:
  "chat_with_ai_loop sv a = (r, a') \<Longrightarrow> length (stdin a') \<le> length (stdin a)"
  by (cases "chat_loop sv a")
     (auto simp: chat_with_ai_loop_def print_py_stdin dest: chat_loop_stdin_le
           split: sum.splits exn.splits)

lemma change_video_stdin_le:
  "change_video sv a = (r, a') \<Longrightarrow> length (stdin a') \<le> length (stdin a)"
  by (cases "input_py ''Please enter the YouTube video URL: '' a")
     (auto simp: change_video_def dest: input_py_stdin_le split: sum.splits)

lemma call0_stdin_le:
  "call0 sv act a = (r, a') \<Longrightarrow> length (stdin a') \<le> length (stdin a)"
  by (cases act)
     (auto simp: call0_def print_transcript_def exit_app_def print_py_stdin
           dest: chat_with_ai_loop_stdin_le change_video_stdin_le)

lemma call1_stdin_le:
  "call1 sv act q a = (r, a') \<Longrightarrow> length (stdin a') \<le> length (stdin a)"
  by (cases act; cases "chat_with_ai sv (transcript a) (StrList q) a")
     (auto simp: call1_def ask_ai_single_question_def print_py_stdin
           dest: chat_with_ai_stdin split: sum.splits)

lemma menu_loop_body_stdin_less:
  assumes "menu_loop_body sv a = (Inr u, a')"
  shows "length (stdin a') < length (stdin a)"
proof -
  obtain x1 a1 where inp: "input_py ''Choose an option: '' (print_menu a) = (x1, a1)"
    by (cases "input_py ''Choose an option: '' (print_menu a)")
  with assms obtain choice where x1: "x1 = Inr choice"
    by (cases x1) (auto simp: menu_loop_body_def)
  have less: "length (stdin a1) < length (stdin a)"
    using input_py_stdin_less[OF inp[unfolded x1]] by (simp add: print_menu_stdin)
  have "length (stdin a') \<le> length (stdin a1)"
    using assms inp x1
    by (auto simp: menu_loop_body_def print_py_stdin
             dest: call0_stdin_le call1_stdin_le split: option.splits if_splits)
  with less show ?thesis by simp
qed

text \<open>
  \<open>_menu_loop\<close> has no \<open>break\<close>: it ends only with an exception, which it returns with the
  state reached.
\<close>

function menu_loop :: "('t, 'x) services_scheme \<Rightarrow> app \<Rightarrow> exn \<times> app" where
  "menu_loop sv a =
     (case menu_loop_body sv a of
        (Inl e, a1) \<Rightarrow> (e, a1)
      | (Inr _, a1) \<Rightarrow> menu_loop sv a1)"
  by pat_completeness auto
termination
proof (relation "measure (\<lambda>(sv, a). length (stdin a))")
  show "wf (measure (\<lambda>(sv :: ('t, 'x) services_scheme, a). length (stdin a)))"
    by simp
next
  fix sv :: "('t, 'x) services_scheme" and a x1 a1 u
  assume "(x1, a1) = menu_loop_body sv a" and "x1 = Inr u"
  then have "length (stdin a1) < length (stdin a)"
    using menu_loop_body_stdin_less[of sv a u a1] by simp
  then show "((sv, a1), (sv, a)) \<in> measure (\<lambda>(sv, a). length (stdin a))"
    by simp
qed

declare menu_loop.simps [simp del]

text \<open>
  The handlers of \<open>run\<close>: \<open>KeyboardInterrupt\<close> and \<open>Exception\<close> are caught and reported;
  \<open>SystemExit\<close> is neither and leaves \<open>run\<close>.
\<close>

definition handle_top :: "exn \<Rightarrow> app \<Rightarrow> (exn + unit) \<times> app" where
  "handle_top e a =
     (case e of
        KeyboardInterrupt \<Rightarrow> (Inr (), print_py ''\<newline>Exiting...'' a)
      | Error msg \<Rightarrow> (Inr (), print_py (''Error: '' @ msg) a)
      | SystemExit \<Rightarrow> (Inl SystemExit, a))"

definition run :: "('t, 'x) services_scheme \<Rightarrow> string \<Rightarrow> app \<Rightarrow> (exn + unit) \<times> app" where
  "run sv video_url a =
     (case fetch_video_transcript sv video_url of
        Inl e \<Rightarrow> handle_top e a
      | Inr t \<Rightarrow> (case menu_loop sv (a\<lparr>transcript := t\<rparr>) of (e, a1) \<Rightarrow> handle_top e a1))"

text \<open>
  The services of the specification's end-to-end scenario: the identifier \<open>ABC123\<close> has
  two caption entries, the punctuation model returns the punctuated sentence pair, and
  the chat backend answers every prompt with the same padded text.
\<close>

definition mock_services :: "nat services" where
  "mock_services =
     \<lparr>fetch_captions = (\<lambda>vid. if vid = Some ''ABC123''
          then Inr [\<lparr>caption_text = ''hello world'', start = 0, duration = 2\<rparr>,
                    \<lparr>caption_text = ''how are you'', start = 2, duration = 3\<rparr>]
          else Inl (Error ''no transcript'')),
      restore_punctuation = (\<lambda>t. if t = ''hello world how are you''
          then Inr ''Hello world. How are you?'' else Inr t),
      url_lib = lenient_checks,
      llm_content = (\<lambda>log prompt. Inr '' Mocked reply.\<newline>'')\<rparr>"

section \<open>Notions used in the statements\<close>

text \<open>
  The answers of the exchanges that returned a reply, stripped as \<open>invoke\<close> strips them.
\<close>

definition answers :: "exchange list \<Rightarrow> string list" where
  "answers log = concat (map (\<lambda>(p, r). case r of Inl e \<Rightarrow> [] | Inr c \<Rightarrow> [strip c]) log)"

text \<open>
  A later state extends an earlier one when the log of exchanges and the chat history
  have only been appended to, with one new pair for every new exchange that returned.
\<close>

definition extends :: "app \<Rightarrow> app \<Rightarrow> bool" where
  "extends a b =
     (\<exists>new_log new. llm_log b = llm_log a @ new_log \<and> chat_history b = chat_history a @ new \<and>
        map snd new = answers new_log)"

text \<open>The state after \<open>input(prompt)\<close> has returned or was interrupted, \<open>rest\<close> left to read.\<close>

definition asked :: "string \<Rightarrow> app \<Rightarrow> event list \<Rightarrow> app" where
  "asked prompt a rest = a\<lparr>stdout := stdout a @ [prompt], stdin := rest\<rparr>"

text \<open>The state after the menu was printed and the choice read.\<close>

definition chosen :: "app \<Rightarrow> event list \<Rightarrow> app" where
  "chosen a rest = asked ''Choose an option: '' (print_menu a) rest"

text \<open>The keys of the menu entries that carry a canned question, with the question.\<close>

definition canned :: "(string \<times> string) list" where
  "canned = [(''2'', ''provide a summary of the video content''),
             (''4'', ''provide a 5 question FAQ based on the video content''),
             (''5'', ''provide a table of contents based on the video content'')]"

text \<open>A text made of white-space characters only.\<close>

definition white :: "string \<Rightarrow> bool" where
  "white s = (\<exists>ws. set ws \<subseteq> set white_space \<and> s = concat ws)"

text \<open>
  An exchange has failed when the call raised an \<open>Exception\<close>. Among the exchanges \<open>new\<close> of
  a piece of the session that ended with \<open>e\<close> (\<open>None\<close> for a normal return), a failed one
  comes last and is what the piece ended with.
\<close>

definition failed :: "exchange \<Rightarrow> bool" where
  "failed x = (case snd x of Inl (Error msg) \<Rightarrow> True | _ \<Rightarrow> False)"

definition fails_last :: "exn option \<Rightarrow> exchange list \<Rightarrow> bool" where
  "fails_last e new =
     (list_all (\<lambda>x. \<not> failed x) new \<or>
      (\<exists>pre p msg. new = pre @ [(p, Inl (Error msg))] \<and> list_all (\<lambda>x. \<not> failed x) pre \<and>
         e = Some (Error msg)))"

definition raised :: "exn + 'a \<Rightarrow> exn option" where
  "raised r = (case r of Inl e \<Rightarrow> Some e | Inr _ \<Rightarrow> None)"

definition ends_on_failure :: "app \<Rightarrow> exn option \<Rightarrow> app \<Rightarrow> bool" where
  "ends_on_failure a e b = (\<exists>new. llm_log b = llm_log a @ new \<and> fails_last e new)"

section \<open>The line-break step\<close>

lemma str_replace_break_after:
  assumes "d \<noteq> CHR '' ''"
  shows "(prev = d \<longrightarrow> \<not> prefix '' '' s) \<Longrightarrow>
         str_replace [d, CHR '' ''] [d, CHR ''\<newline>''] s = break_after (\<lambda>x. x = d) prev s"
proof (induction s arbitrary: prev rule: length_induct)
  case (1 s)
  show ?case
  proof (cases s)
    case Nil
    then show ?thesis by simp
  next
    case (Cons c cs)
    show ?thesis
    proof (cases "prefix [d, CHR '' ''] (c # cs)")
      case True
      then obtain r where cs: "c = d" "cs = CHR '' '' # r"
        by (auto simp: prefix_def)
      have "str_replace [d, CHR '' ''] [d, CHR ''\<newline>''] r = break_after (\<lambda>x. x = d) (CHR '' '') r"
        using 1(1) assms Cons cs by simp
      with Cons cs 1(2) assms show ?thesis by auto
    next
      case False
      have nb: "c = d \<longrightarrow> \<not> prefix '' '' cs"
        using False by (cases cs) auto
      have "str_replace [d, CHR '' ''] [d, CHR ''\<newline>''] cs = break_after (\<lambda>x. x = d) c cs"
        using 1(1) Cons nb by simp
      with Cons False 1(2) show ?thesis by auto
    qed
  qed
qed

lemma break_after_compose:
  assumes "\<not> Q (CHR '' '')" "\<not> Q (CHR ''\<newline>'')"
  shows "Q q = Q p \<Longrightarrow> break_after Q q (break_after P p s) = break_after (\<lambda>x. P x \<or> Q x) p s"
  using assms by (induction s arbitrary: p q) auto

lemma insert_line_breaks_break_after:
  assumes "prev \<noteq> CHR ''.''" "prev \<noteq> CHR '',''"
  shows "insert_line_breaks s = break_after (\<lambda>x. x = CHR ''.'' \<or> x = CHR '','') prev s"
proof -
  have 1: "str_replace ''. '' ''.\<newline>'' s = break_after (\<lambda>x. x = CHR ''.'') prev s"
    using str_replace_break_after[of "CHR ''.''" prev s] assms by simp
  have 2: "str_replace '', '' '',\<newline>'' t = break_after (\<lambda>x. x = CHR '','') prev t" for t
    using str_replace_break_after[of "CHR '',''" prev t] assms by simp
  show ?thesis
    unfolding insert_line_breaks_def 1 2
    by (rule break_after_compose) simp_all
qed

lemma length_break_after: "length (break_after P prev s) = length s"
  by (induction s arbitrary: prev) auto

lemma nth_break_after:
  "i < length s \<Longrightarrow>
   break_after P prev s ! i =
     (if s ! i = CHR '' '' \<and> P (if i = 0 then prev else s ! (i - 1)) then CHR ''\<newline>'' else s ! i)"
proof (induction s arbitrary: prev i)
  case Nil then show ?case by simp
next
  case (Cons c cs)
  show ?case
  proof (cases i)
    case 0 then show ?thesis by simp
  next
    case (Suc j)
    with Cons.prems have "j < length cs" by simp
    from Cons.IH[OF this, of c] Suc show ?thesis by (cases j) auto
  qed
qed

lemma str_replace_absent:
  "\<not> sublist (p # ps) s \<Longrightarrow> str_replace (p # ps) new s = s"
proof (induction s)
  case Nil then show ?case by simp
next
  case (Cons c cs)
  have "\<not> prefix (p # ps) (c # cs)" using Cons.prems prefix_imp_sublist by blast
  moreover have "\<not> sublist (p # ps) cs" using Cons.prems by (meson sublist_Cons_right)
  ultimately show ?case using Cons.IH by auto
qed

lemma break_after_idem:
  assumes "\<not> P (CHR '' '')" "\<not> P (CHR ''\<newline>'')"
  shows "P q = P p \<Longrightarrow> break_after P q (break_after P p s) = break_after P p s"
  using assms by (induction s arbitrary: p q) auto

lemma insert_line_breaks_nth:
  "length (insert_line_breaks p) = length p \<and>
   (\<forall>i < length p. insert_line_breaks p ! i =
      (if p ! i = CHR '' '' \<and> 0 < i \<and> (p ! (i - 1) = CHR ''.'' \<or> p ! (i - 1) = CHR '','')
       then CHR ''\<newline>'' else p ! i))"
proof -
  have eq: "insert_line_breaks p = break_after (\<lambda>x. x = CHR ''.'' \<or> x = CHR '','') (CHR '' '') p"
    by (rule insert_line_breaks_break_after) simp_all
  show ?thesis
    unfolding eq by (auto simp: length_break_after nth_break_after)
qed

lemma insert_line_breaks_idem:
  "insert_line_breaks (insert_line_breaks s) = insert_line_breaks s"
proof -
  have eq: "insert_line_breaks t = break_after (\<lambda>x. x = CHR ''.'' \<or> x = CHR '','') (CHR '' '') t" for t
    by (rule insert_line_breaks_break_after) simp_all
  show ?thesis
    unfolding eq by (rule break_after_idem) simp_all
qed

text \<open>
  Claim C2. \<open>get_transcript\<close> returns the text fields of the fetched caption entries joined
  by single spaces, whatever their timing. \<open>add_punctuation\<close> returns the punctuation
  model's output with a line break in the place of every space that directly follows a
  period or a comma, and every other character as it was.
\<close>

theorem transcript_preparation:
  assumes "fetch_captions sv vid = Inr entries"
    and "restore_punctuation sv (join '' '' (map caption_text entries)) = Inr p"
  shows "get_transcript sv vid = Inr (join '' '' (map caption_text entries)) \<and>
         (\<exists>out. add_punctuation sv (join '' '' (map caption_text entries)) = Inr out \<and>
            length out = length p \<and>
            (\<forall>i < length p. out ! i =
               (if p ! i = CHR '' '' \<and> 0 < i \<and> (p ! (i - 1) = CHR ''.'' \<or> p ! (i - 1) = CHR '','')
                then CHR ''\<newline>'' else p ! i)))"
proof
  show "get_transcript sv vid = Inr (join '' '' (map caption_text entries))"
    using assms(1) by (simp add: get_transcript_def)
next
  have "add_punctuation sv (join '' '' (map caption_text entries)) = Inr (insert_line_breaks p)"
    using assms(2) by (simp add: add_punctuation_def)
  with insert_line_breaks_nth[of p] show "\<exists>out. add_punctuation sv (join '' '' (map caption_text entries)) = Inr out \<and>
            length out = length p \<and>
            (\<forall>i < length p. out ! i =
               (if p ! i = CHR '' '' \<and> 0 < i \<and> (p ! (i - 1) = CHR ''.'' \<or> p ! (i - 1) = CHR '','')
                then CHR ''\<newline>'' else p ! i))"
    by blast
qed

text \<open>
  The scenario of the claim: the entries \<open>hello world\<close> and \<open>how are you\<close>, punctuated by
  the model as \<open>Hello world. How are you?\<close>, come out as the two lines \<open>Hello world.\<close> and
  \<open>How are you?\<close>.
\<close>

theorem transcript_preparation_witness:
  "fetch_captions mock_services (Some ''ABC123'') =
     Inr [\<lparr>caption_text = ''hello world'', start = 0, duration = 2\<rparr>,
          \<lparr>caption_text = ''how are you'', start = 2, duration = 3\<rparr>] \<and>
   restore_punctuation mock_services ''hello world how are you'' = Inr ''Hello world. How are you?'' \<and>
   get_transcript mock_services (Some ''ABC123'') = Inr ''hello world how are you'' \<and>
   add_punctuation mock_services ''hello world how are you'' = Inr ''Hello world.\<newline>How are you?''"
  using transcript_preparation[of mock_services "Some ''ABC123''"
      "[\<lparr>caption_text = ''hello world'', start = 0, duration = 2\<rparr>,
        \<lparr>caption_text = ''how are you'', start = 2, duration = 3\<rparr>]" "''Hello world. How are you?''"]
  by (simp add: mock_services_def get_transcript_def add_punctuation_def insert_line_breaks_def)

text \<open>
  Claim C10. A text with no period-space and no comma-space is left unchanged by the
  line-break step, so the step applied to its own output on such a text is the identity.
\<close>

theorem line_breaks_fixed_point:
  assumes "\<not> sublist ''. '' s" and "\<not> sublist '', '' s"
  shows "insert_line_breaks s = s \<and>
         insert_line_breaks (insert_line_breaks s) = insert_line_breaks s"
proof -
  have "str_replace ''. '' ''.\<newline>'' s = s"
    using assms(1) by (rule str_replace_absent)
  moreover have "str_replace '', '' '',\<newline>'' s = s"
    using assms(2) by (rule str_replace_absent)
  ultimately have "insert_line_breaks s = s"
    by (simp add: insert_line_breaks_def)
  then show ?thesis by simp
qed

theorem line_breaks_fixed_point_witness:
  "\<not> sublist ''. '' ''Hello world.\<newline>How are you?'' \<and>
   \<not> sublist '', '' ''Hello world.\<newline>How are you?'' \<and>
   insert_line_breaks ''Hello world.\<newline>How are you?'' = ''Hello world.\<newline>How are you?''"
proof -
  have a: "\<not> sublist ''. '' ''Hello world.\<newline>How are you?''" by code_simp
  have b: "\<not> sublist '', '' ''Hello world.\<newline>How are you?''" by code_simp
  from line_breaks_fixed_point[OF a b] a b show ?thesis by simp
qed

section \<open>The video identifier\<close>

lemma add_value_apply:
  "add_value m p k =
     (if fst p = k then (case m k of Some vs \<Rightarrow> Some (vs @ [snd p]) | None \<Rightarrow> Some [snd p])
      else m k)"
  by (simp add: add_value_def split: option.splits)

lemma foldl_add_value:
  "foldl add_value m ps k =
     (case m k of
        Some vs \<Rightarrow> Some (vs @ map snd (filter (\<lambda>p. fst p = k) ps))
      | None \<Rightarrow> (case map snd (filter (\<lambda>p. fst p = k) ps) of [] \<Rightarrow> None | v # vs \<Rightarrow> Some (v # vs)))"
proof (induction ps arbitrary: m)
  case Nil
  then show ?case by (simp split: option.splits)
next
  case (Cons p ps)
  have step: "add_value m p k =
     (if fst p = k then (case m k of Some vs \<Rightarrow> Some (vs @ [snd p]) | None \<Rightarrow> Some [snd p])
      else m k)"
    by (rule add_value_apply)
  show ?case
    unfolding foldl_Cons Cons.IH step
    by (simp split: option.splits list.splits)
qed

lemma map_of_first:
  "map_of ps k = (case map snd (filter (\<lambda>p. fst p = k) ps) of [] \<Rightarrow> None | v # vs \<Rightarrow> Some v)"
  by (induction ps) auto

lemma parse_qs_first:
  "(case parse_qs qs k of None \<Rightarrow> Inr None | Some [] \<Rightarrow> Inl (Error ''list index out of range'')
      | Some (v # _) \<Rightarrow> Inr (Some v)) = (Inr (map_of (parse_qsl qs) k) :: exn + string option)"
  by (simp add: parse_qs_def foldl_add_value map_of_first split: list.splits)

lemma urlparse_unmatched_bracket:
  "urlparse ck ''https://[youtu.be/abc'' = Inl (Error ''Invalid IPv6 URL'')"
  by code_simp

text \<open>
  Claim C1, as the code has it. A URL that \<open>urlparse\<close> rejects makes \<open>extract_video_id\<close>
  raise the \<open>ValueError\<close> of \<open>urlparse\<close>. For a URL that \<open>urlparse\<close> accepts: with the host
  name \<open>www.youtube.com\<close> the result is the value of the first \<open>v\<close> field of the decoded
  query (\<open>None\<close> when the query has none); with the host name \<open>youtu.be\<close> it is the path
  without its first character; with any other host name, or none, it is \<open>None\<close>. Indexing
  the list of values never fails. \<open>extract_video_id\<close> is a function of the URL string alone
  (and of the interpreter's \<open>urllib\<close>): it reads and writes no state, so equal URLs give
  equal results.
\<close>

theorem extract_video_id_by_hostname:
  "extract_video_id ck url =
     (case urlparse ck url of
        Inl e \<Rightarrow> Inl e
      | Inr u \<Rightarrow>
          if hostname u = Some ''www.youtube.com'' then Inr (map_of (parse_qsl (query u)) ''v'')
          else if hostname u = Some ''youtu.be'' then Inr (Some (drop 1 (path u)))
          else Inr None)"
proof (cases "urlparse ck url")
  case (Inl e)
  then show ?thesis by (simp add: extract_video_id_def)
next
  case (Inr u)
  then show ?thesis
    using parse_qs_first[of "query u" "''v''"] by (simp add: extract_video_id_def)
qed

text \<open>
  The two URLs of the claim, one of another host, one that \<open>urlparse\<close> rejects, and one
  whose \<open>v\<close> value is an escape that is not UTF-8.
\<close>

theorem extract_video_id_by_hostname_witness:
  "urlparse lenient_checks ''https://www.youtube.com/watch?v=ABC123'' =
     Inr \<lparr>scheme = ''https'', netloc = ''www.youtube.com'', path = ''/watch'', params = [],
          query = ''v=ABC123'', fragment = []\<rparr> \<and>
   extract_video_id lenient_checks ''https://www.youtube.com/watch?v=ABC123'' = Inr (Some ''ABC123'') \<and>
   urlparse lenient_checks ''https://youtu.be/XYZ987'' =
     Inr \<lparr>scheme = ''https'', netloc = ''youtu.be'', path = ''/XYZ987'', params = [],
          query = [], fragment = []\<rparr> \<and>
   extract_video_id lenient_checks ''https://youtu.be/XYZ987'' = Inr (Some ''XYZ987'') \<and>
   urlparse lenient_checks ''https://vimeo.com/XYZ987'' =
     Inr \<lparr>scheme = ''https'', netloc = ''vimeo.com'', path = ''/XYZ987'', params = [],
          query = [], fragment = []\<rparr> \<and>
   extract_video_id lenient_checks ''https://vimeo.com/XYZ987'' = Inr None \<and>
   extract_video_id lenient_checks ''https://[youtu.be/abc'' = Inl (Error ''Invalid IPv6 URL'') \<and>
   extract_video_id lenient_checks ''https://www.youtube.com/watch?v=%ff'' =
     Inr (Some [CHR 0xEF, CHR 0xBF, CHR 0xBD])"
proof -
  let ?u1 = "\<lparr>scheme = ''https'', netloc = ''www.youtube.com'', path = ''/watch'', params = [],
          query = ''v=ABC123'', fragment = []\<rparr>"
  let ?u2 = "\<lparr>scheme = ''https'', netloc = ''youtu.be'', path = ''/XYZ987'', params = [],
          query = [], fragment = []\<rparr>"
  let ?u3 = "\<lparr>scheme = ''https'', netloc = ''vimeo.com'', path = ''/XYZ987'', params = [],
          query = [], fragment = []\<rparr>"
  have p1: "urlparse lenient_checks ''https://www.youtube.com/watch?v=ABC123'' = Inr ?u1"
    by code_simp
  have p2: "urlparse lenient_checks ''https://youtu.be/XYZ987'' = Inr ?u2"
    by code_simp
  have p3: "urlparse lenient_checks ''https://vimeo.com/XYZ987'' = Inr ?u3"
    by code_simp
  have p4: "urlparse lenient_checks ''https://[youtu.be/abc'' = Inl (Error ''Invalid IPv6 URL'')"
    by (rule urlparse_unmatched_bracket)
  have h1: "hostname ?u1 = Some ''www.youtube.com''" by code_simp
  have h2: "hostname ?u2 = Some ''youtu.be''" by code_simp
  have h3: "hostname ?u3 = Some ''vimeo.com''" by code_simp
  have q1: "map_of (parse_qsl ''v=ABC123'') ''v'' = Some ''ABC123''" by code_simp
  have e1: "extract_video_id lenient_checks ''https://www.youtube.com/watch?v=ABC123'' = Inr (Some ''ABC123'')"
    using extract_video_id_by_hostname[of lenient_checks "''https://www.youtube.com/watch?v=ABC123''"]
    unfolding p1 using h1 q1 by simp
  have e2: "extract_video_id lenient_checks ''https://youtu.be/XYZ987'' = Inr (Some ''XYZ987'')"
    using extract_video_id_by_hostname[of lenient_checks "''https://youtu.be/XYZ987''"]
    unfolding p2 using h2 by simp
  have e3: "extract_video_id lenient_checks ''https://vimeo.com/XYZ987'' = Inr None"
    using extract_video_id_by_hostname[of lenient_checks "''https://vimeo.com/XYZ987''"]
    unfolding p3 using h3 by simp
  have e4: "extract_video_id lenient_checks ''https://[youtu.be/abc'' = Inl (Error ''Invalid IPv6 URL'')"
    using extract_video_id_by_hostname[of lenient_checks "''https://[youtu.be/abc''"]
    unfolding p4 by simp
  have e5: "extract_video_id lenient_checks ''https://www.youtube.com/watch?v=%ff'' =
     Inr (Some [CHR 0xEF, CHR 0xBF, CHR 0xBD])"
    by code_simp
  from p1 p2 p3 e1 e2 e3 e4 e5 show ?thesis by blast
qed

text \<open>
  Claim C1 as it is written says that every URL string falls under one of the three
  cases and yields an identifier or \<open>None\<close>. A URL with an opening square bracket and no
  closing one in its host part is rejected by \<open>urlparse\<close>, for every interpreter, and
  \<open>extract_video_id\<close> raises instead of returning \<open>None\<close>.
\<close>

theorem extract_video_id_raises_counterexample:
  "urlparse lenient_checks ''https://[youtu.be/abc'' = Inl (Error ''Invalid IPv6 URL'') \<and>
   extract_video_id lenient_checks ''https://[youtu.be/abc'' = Inl (Error ''Invalid IPv6 URL'') \<and>
   extract_video_id lenient_checks ''https://[youtu.be/abc'' \<noteq> Inr None"
proof -
  have "urlparse lenient_checks ''https://[youtu.be/abc'' = Inl (Error ''Invalid IPv6 URL'')"
    by (rule urlparse_unmatched_bracket)
  then show ?thesis by (simp add: extract_video_id_def)
qed

section \<open>The prompt\<close>

lemma join_history_lines:
  "join ''\<newline>'' (map (\<lambda>(q, a). ''Q: '' @ str_of q @ ''\<newline>A: '' @ a) h) =
   join ''\<newline>'' (history_lines h)"
proof (induction h rule: induct_list012)
  case 1
  then show ?case by (simp add: history_lines_def)
next
  case (2 x)
  then show ?case by (cases x) (simp add: history_lines_def)
next
  case (3 x y zs)
  then show ?case by (cases x; cases y) (simp add: history_lines_def)
qed

lemma sublist_join:
  "x \<in> set xs \<Longrightarrow> sublist x (join sep xs)"
proof (induction sep xs rule: join.induct)
  case (1 sep)
  then show ?case by simp
next
  case (2 sep y)
  then show ?case by simp
next
  case (3 sep y z zs)
  show ?case
  proof (cases "x = y")
    case True
    then show ?thesis by (simp add: sublist_append_rightI)
  next
    case False
    with 3 have "sublist x (join sep (z # zs))" by simp
    then have "sublist x ((y @ sep) @ join sep (z # zs))"
      by (meson sublist_append_leftI sublist_order.order_trans)
    then show ?thesis by simp
  qed
qed

lemma sublist_mid: "sublist x (a @ x @ b)"
  by (rule sublist_appendI)

lemma sublist_mid_wider: "sublist x y \<Longrightarrow> sublist x (a @ y @ b)"
  using sublist_appendI sublist_order.order_trans by blast

text \<open>
  Claim C3. The prompt is the fixed text with three fields filled in: the transcript, the
  history section and the question as \<open>str\<close> formats it. The history section is the lines
  \<open>Q: ...\<close>, \<open>A: ...\<close> of the pairs, in the order of the history, joined by line breaks. So
  the prompt holds the transcript, the question line and the two lines of every pair of
  the history; for an empty history the section is empty. \<open>prepare_prompt\<close> returns a
  string for every input: it has no failing branch.
\<close>

theorem prepare_prompt_contents:
  "prepare_prompt t q h =
     prompt_intro @ t @ prompt_history_label @ join ''\<newline>'' (history_lines h)
       @ prompt_question_label @ str_of q @ prompt_rules \<and>
   sublist t (prepare_prompt t q h) \<and>
   sublist (''Question: '' @ str_of q) (prepare_prompt t q h) \<and>
   (\<forall>i < length h.
      sublist (''Q: '' @ str_of (fst (h ! i)) @ ''\<newline>A: '' @ snd (h ! i)) (prepare_prompt t q h)) \<and>
   prepare_prompt t q [] =
     prompt_intro @ t @ prompt_history_label @ prompt_question_label @ str_of q @ prompt_rules"
proof (intro conjI allI impI)
  show "prepare_prompt t q h =
     prompt_intro @ t @ prompt_history_label @ join ''\<newline>'' (history_lines h)
       @ prompt_question_label @ str_of q @ prompt_rules"
    unfolding prepare_prompt_def Let_def join_history_lines by (rule refl)
next
  show "sublist t (prepare_prompt t q h)"
    unfolding prepare_prompt_def Let_def by (rule sublist_mid)
next
  have "prepare_prompt t q h =
      (prompt_intro @ t @ prompt_history_label
        @ join ''\<newline>'' (map (\<lambda>(q, a). ''Q: '' @ str_of q @ ''\<newline>A: '' @ a) h) @ ''\<newline>\<newline>        '')
      @ (''Question: '' @ str_of q) @ prompt_rules"
    by (simp add: prepare_prompt_def prompt_question_label_def)
  then show "sublist (''Question: '' @ str_of q) (prepare_prompt t q h)"
    using sublist_mid by metis
next
  fix i assume i: "i < length h"
  let ?f = "\<lambda>(q, a). ''Q: '' @ str_of q @ ''\<newline>A: '' @ a"
  have "?f (h ! i) \<in> set (map ?f h)" using i by simp
  then have "sublist (?f (h ! i)) (join ''\<newline>'' (map ?f h))" by (rule sublist_join)
  then have "sublist (?f (h ! i))
     ((prompt_intro @ t @ prompt_history_label) @ join ''\<newline>'' (map ?f h)
        @ (prompt_question_label @ str_of q @ prompt_rules))"
    by (rule sublist_mid_wider)
  then show "sublist (''Q: '' @ str_of (fst (h ! i)) @ ''\<newline>A: '' @ snd (h ! i)) (prepare_prompt t q h)"
    by (simp add: prepare_prompt_def case_prod_beta)
next
  show "prepare_prompt t q [] =
     prompt_intro @ t @ prompt_history_label @ prompt_question_label @ str_of q @ prompt_rules"
    by (simp add: prepare_prompt_def)
qed

text \<open>A history of two turns, the second asked from the menu.\<close>

theorem prepare_prompt_contents_witness:
  "(0::nat) < length [(Str ''what is it'', ''a video''), (StrList [''provide a summary of the video content''], ''short'')] \<and>
   sublist ''Q: what is it\<newline>A: a video''
     (prepare_prompt ''Hello world.'' (Str ''why'')
        [(Str ''what is it'', ''a video''), (StrList [''provide a summary of the video content''], ''short'')]) \<and>
   join ''\<newline>'' (history_lines
        [(Str ''what is it'', ''a video''), (StrList [''provide a summary of the video content''], ''short'')]) =
     ''Q: what is it\<newline>A: a video\<newline>Q: ['provide a summary of the video content']\<newline>A: short''"
proof -
  let ?h = "[(Str ''what is it'', ''a video''), (StrList [''provide a summary of the video content''], ''short'')]"
  have len: "(0::nat) < length ?h" by simp
  have "sublist (''Q: '' @ str_of (fst (?h ! 0)) @ ''\<newline>A: '' @ snd (?h ! 0))
          (prepare_prompt ''Hello world.'' (Str ''why'') ?h)"
    using prepare_prompt_contents[of "''Hello world.''" "Str ''why''" ?h] len by blast
  moreover have "join ''\<newline>'' (history_lines ?h) =
     ''Q: what is it\<newline>A: a video\<newline>Q: ['provide a summary of the video content']\<newline>A: short''"
    by (simp add: history_lines_def repr_list_def repr_str_def repr_char_def Let_def)
  ultimately show ?thesis by simp
qed

section \<open>The session\<close>

lemma answers_append: "answers (xs @ ys) = answers xs @ answers ys"
  by (simp add: answers_def)

lemma extends_refl: "extends a a"
  by (simp add: extends_def answers_def)

lemma extends_same:
  "llm_log b = llm_log a \<Longrightarrow> chat_history b = chat_history a \<Longrightarrow> extends a b"
  by (simp add: extends_def answers_def)

lemma extends_trans:
  assumes "extends a b" and "extends b c"
  shows "extends a c"
proof -
  from assms(1) obtain l1 n1 where 1: "llm_log b = llm_log a @ l1"
    "chat_history b = chat_history a @ n1" "map snd n1 = answers l1"
    by (auto simp: extends_def)
  from assms(2) obtain l2 n2 where 2: "llm_log c = llm_log b @ l2"
    "chat_history c = chat_history b @ n2" "map snd n2 = answers l2"
    by (auto simp: extends_def)
  have "llm_log c = llm_log a @ (l1 @ l2)" "chat_history c = chat_history a @ (n1 @ n2)"
    "map snd (n1 @ n2) = answers (l1 @ l2)"
    using 1 2 by (simp_all add: answers_append)
  then show ?thesis unfolding extends_def by blast
qed

lemma extends_print: "extends a b \<Longrightarrow> extends a (print_py s b)"
  by (simp add: extends_def print_py_def)

lemma extends_input: "input_py p a = (r, b) \<Longrightarrow> extends a b"
  by (rule extends_same) (auto simp: input_py_def Let_def split: list.splits event.splits)

lemma print_menu_fields:
  "llm_log (print_menu a) = llm_log a" "chat_history (print_menu a) = chat_history a"
  "transcript (print_menu a) = transcript a"
  by (simp_all add: print_menu_def menu_options_def print_py_def)

lemma chat_with_ai_result:
  "chat_with_ai sv t q a =
     (case llm_content sv (llm_log a) (prepare_prompt t q (chat_history a)) of
        Inl e \<Rightarrow> (Inl e, a\<lparr>llm_log := llm_log a @ [(prepare_prompt t q (chat_history a), Inl e)]\<rparr>)
      | Inr c \<Rightarrow> (Inr (strip c),
          a\<lparr>llm_log := llm_log a @ [(prepare_prompt t q (chat_history a), Inr c)],
            chat_history := chat_history a @ [(q, strip c)]\<rparr>))"
  by (simp add: chat_with_ai_def invoke_def Let_def split: sum.splits)

lemma extends_chat_with_ai: "chat_with_ai sv t q a = (r, b) \<Longrightarrow> extends a b"
  unfolding chat_with_ai_result extends_def
  by (auto simp: answers_def split: sum.splits)

lemma extends_chat_loop: "chat_loop sv a = (r, b) \<Longrightarrow> extends a b"
proof (induction sv a arbitrary: r b rule: chat_loop.induct)
  case (1 sv a)
  obtain x1 a1 where inp: "input_py ''Enter your question (or type 'exit' or CTRL+C to go back): '' a = (x1, a1)"
    by (cases "input_py ''Enter your question (or type 'exit' or CTRL+C to go back): '' a")
  have e1: "extends a a1" using inp by (rule extends_input)
  show ?case
  proof (cases x1)
    case (Inl e)
    with 1(2) inp e1 show ?thesis by (subst (asm) chat_loop.simps) auto
  next
    case (Inr question)
    show ?thesis
    proof (cases "lower question = ''exit''")
      case True
      with 1(2) inp e1 Inr show ?thesis by (subst (asm) chat_loop.simps) auto
    next
      case False
      obtain x2 a2 where cw: "chat_with_ai sv (transcript a1) (Str question) a1 = (x2, a2)"
        by (cases "chat_with_ai sv (transcript a1) (Str question) a1")
      have e2: "extends a a2" using e1 extends_chat_with_ai[OF cw] by (rule extends_trans)
      show ?thesis
      proof (cases x2)
        case (Inl e)
        with 1(2) inp \<open>x1 = Inr question\<close> False cw e2 show ?thesis
          by (subst (asm) chat_loop.simps) auto
      next
        case (Inr answer)
        have rec: "chat_loop sv (print_py (''\<newline>Answer:\<newline>'' @ '' '' @ answer) a2) = (r, b)"
          using 1(2) inp \<open>x1 = Inr question\<close> False cw Inr
          by (subst (asm) chat_loop.simps) auto
        have "extends (print_py (''\<newline>Answer:\<newline>'' @ '' '' @ answer) a2) b"
          using 1(1)[OF inp[symmetric] \<open>x1 = Inr question\<close> False cw[symmetric] Inr rec] .
        with extends_print[OF e2] show ?thesis by (rule extends_trans)
      qed
    qed
  qed
qed

lemma extends_chat_with_ai_loop: "chat_with_ai_loop sv a = (r, b) \<Longrightarrow> extends a b"
  by (cases "chat_loop sv a")
     (auto simp: chat_with_ai_loop_def dest!: extends_chat_loop intro: extends_print
           split: sum.splits exn.splits)

lemma extends_change_video: "change_video sv a = (r, b) \<Longrightarrow> extends a b"
  by (cases "input_py ''Please enter the YouTube video URL: '' a")
     (auto simp: change_video_def extends_def dest!: extends_input split: sum.splits)

lemma extends_call0: "call0 sv act a = (r, b) \<Longrightarrow> extends a b"
  by (cases act)
     (auto simp: call0_def print_transcript_def exit_app_def extends_refl
           intro: extends_print dest: extends_chat_with_ai_loop extends_change_video)

lemma extends_call1: "call1 sv act q a = (r, b) \<Longrightarrow> extends a b"
  by (cases act; cases "chat_with_ai sv (transcript a) (StrList q) a")
     (auto simp: call1_def ask_ai_single_question_def extends_refl
           intro: extends_print dest: extends_chat_with_ai split: sum.splits)

lemma extends_menu_loop_body: "menu_loop_body sv a = (r, b) \<Longrightarrow> extends a b"
proof -
  assume body: "menu_loop_body sv a = (r, b)"
  obtain x1 a1 where inp: "input_py ''Choose an option: '' (print_menu a) = (x1, a1)"
    by (cases "input_py ''Choose an option: '' (print_menu a)")
  have "extends a (print_menu a)" by (rule extends_same) (simp_all add: print_menu_fields)
  then have e1: "extends a a1" using extends_input[OF inp] by (rule extends_trans)
  have "extends a1 b"
    using body inp
    by (auto simp: menu_loop_body_def extends_refl intro: extends_print
             dest: extends_call0 extends_call1 split: sum.splits option.splits if_splits)
  with e1 show ?thesis by (rule extends_trans)
qed

lemma extends_menu_loop: "menu_loop sv a = (e, b) \<Longrightarrow> extends a b"
proof (induction sv a arbitrary: e b rule: menu_loop.induct)
  case (1 sv a)
  obtain x1 a1 where body: "menu_loop_body sv a = (x1, a1)"
    by (cases "menu_loop_body sv a")
  have e1: "extends a a1" using body by (rule extends_menu_loop_body)
  show ?case
  proof (cases x1)
    case (Inl e')
    with 1(2) body e1 show ?thesis by (subst (asm) menu_loop.simps) auto
  next
    case (Inr u)
    have rec: "menu_loop sv a1 = (e, b)"
      using 1(2) body Inr by (subst (asm) menu_loop.simps) auto
    have "extends a1 b" using 1(1)[OF body[symmetric] Inr rec] .
    with e1 show ?thesis by (rule extends_trans)
  qed
qed

lemma extends_handle_top: "handle_top e a = (r, b) \<Longrightarrow> extends a b"
  by (cases e) (auto simp: handle_top_def extends_refl intro: extends_print)

lemma extends_run: "run sv url a = (r, b) \<Longrightarrow> extends a b"
proof -
  assume run: "run sv url a = (r, b)"
  show ?thesis
  proof (cases "fetch_video_transcript sv url")
    case (Inl e)
    with run show ?thesis by (auto simp: run_def dest: extends_handle_top)
  next
    case (Inr t)
    obtain e a1 where ml: "menu_loop sv (a\<lparr>transcript := t\<rparr>) = (e, a1)"
      by (cases "menu_loop sv (a\<lparr>transcript := t\<rparr>)")
    have "extends a (a\<lparr>transcript := t\<rparr>)" by (rule extends_same) simp_all
    then have "extends a a1" using extends_menu_loop[OF ml] by (rule extends_trans)
    moreover have "extends a1 b" using run Inr ml by (auto simp: run_def dest: extends_handle_top)
    ultimately show ?thesis by (rule extends_trans)
  qed
qed

lemma extends_prefix_length:
  assumes "extends a b"
  shows "prefix (chat_history a) (chat_history b) \<and> prefix (llm_log a) (llm_log b) \<and>
         length (chat_history b) =
           length (chat_history a) + length (answers (drop (length (llm_log a)) (llm_log b)))"
proof -
  from assms obtain l n where *: "llm_log b = llm_log a @ l"
    "chat_history b = chat_history a @ n" "map snd n = answers l"
    by (auto simp: extends_def)
  have "length n = length (answers l)" using *(3) by (metis length_map)
  with * show ?thesis by simp
qed

lemma input_py_line: "stdin a = Line l # rest \<Longrightarrow> input_py p a = (Inr l, asked p a rest)"
  by (simp add: input_py_def asked_def)

lemma input_py_interrupt:
  "stdin a = Interrupt # rest \<Longrightarrow> input_py p a = (Inl KeyboardInterrupt, asked p a rest)"
  by (simp add: input_py_def asked_def)

lemma asked_fields:
  "transcript (asked p a rest) = transcript a" "chat_history (asked p a rest) = chat_history a"
  "llm_log (asked p a rest) = llm_log a" "stdin (asked p a rest) = rest"
  "stdout (asked p a rest) = stdout a @ [p]"
  by (simp_all add: asked_def)

lemma chosen_fields:
  "transcript (chosen a rest) = transcript a" "chat_history (chosen a rest) = chat_history a"
  "llm_log (chosen a rest) = llm_log a" "stdin (chosen a rest) = rest"
  by (simp_all add: chosen_def asked_fields print_menu_fields)

lemma menu_loop_body_line:
  assumes "stdin a = Line choice # rest"
  shows "menu_loop_body sv a =
     (case map_of menu_options choice of
        Some (d, act, question) \<Rightarrow>
          if question \<noteq> [] then call1 sv act question (chosen a rest)
          else call0 sv act (chosen a rest)
      | None \<Rightarrow> (Inr (), print_py ''Invalid choice. Please try again.'' (chosen a rest)))"
proof -
  have "stdin (print_menu a) = Line choice # rest"
    using assms by (simp add: print_menu_stdin)
  then have "input_py ''Choose an option: '' (print_menu a) = (Inr choice, chosen a rest)"
    unfolding chosen_def by (rule input_py_line)
  then show ?thesis by (simp add: menu_loop_body_def)
qed

lemma menu_loop_body_interrupt:
  assumes "stdin a = Interrupt # rest"
  shows "menu_loop_body sv a = (Inl KeyboardInterrupt, chosen a rest)"
proof -
  have "stdin (print_menu a) = Interrupt # rest"
    using assms by (simp add: print_menu_stdin)
  then have "input_py ''Choose an option: '' (print_menu a) = (Inl KeyboardInterrupt, chosen a rest)"
    unfolding chosen_def by (rule input_py_interrupt)
  then show ?thesis by (simp add: menu_loop_body_def)
qed

lemma menu_loop_raise: "menu_loop_body sv a = (Inl e, b) \<Longrightarrow> menu_loop sv a = (e, b)"
  by (subst menu_loop.simps) simp

lemma menu_loop_continue: "menu_loop_body sv a = (Inr u, b) \<Longrightarrow> menu_loop sv a = menu_loop sv b"
  by (subst menu_loop.simps) simp

lemma map_of_canned:
  "(k, c) \<in> set canned \<Longrightarrow> \<exists>d. map_of menu_options k = Some (d, AskAiSingleQuestion, [c])"
  by (auto simp: canned_def menu_options_def)

lemma str_of_canned:
  "(k, c) \<in> set canned \<Longrightarrow> str_of (StrList [c]) = ''['' @ [CHR 0x27] @ c @ [CHR 0x27] @ '']''"
  by (auto simp: canned_def repr_list_def repr_str_def repr_char_def Let_def)

lemma menu_loop_body_canned:
  assumes "stdin a = Line k # rest" and "(k, c) \<in> set canned"
  shows "menu_loop_body sv a = ask_ai_single_question sv (StrList [c]) (chosen a rest)"
proof -
  from map_of_canned[OF assms(2)] obtain d where "map_of menu_options k = Some (d, AskAiSingleQuestion, [c])" ..
  then show ?thesis
    by (simp add: menu_loop_body_line[OF assms(1)] call1_def)
qed

lemma ask_ai_single_question_result:
  "ask_ai_single_question sv q a =
     (case llm_content sv (llm_log a) (prepare_prompt (transcript a) q (chat_history a)) of
        Inl e \<Rightarrow> (Inl e, a\<lparr>llm_log := llm_log a @ [(prepare_prompt (transcript a) q (chat_history a), Inl e)]\<rparr>)
      | Inr c \<Rightarrow> (Inr (),
          print_py (strip c)
            (a\<lparr>llm_log := llm_log a @ [(prepare_prompt (transcript a) q (chat_history a), Inr c)],
               chat_history := chat_history a @ [(q, strip c)]\<rparr>)))"
  by (simp add: ask_ai_single_question_def chat_with_ai_result split: sum.splits)

lemma lead_len_prefix:
  assumes "lead_len seqs s \<noteq> 0"
  shows "\<exists>w \<in> set seqs. prefix w s \<and> lead_len seqs s = length w"
proof (cases "filter (\<lambda>w. prefix w s) seqs")
  case Nil
  with assms show ?thesis by (simp add: lead_len_def)
next
  case (Cons w r)
  then have "w \<in> set (filter (\<lambda>w. prefix w s) seqs)" by simp
  then have "w \<in> set seqs" "prefix w s" by simp_all
  moreover have "lead_len seqs s = length w" using Cons by (simp add: lead_len_def)
  ultimately show ?thesis by blast
qed

lemma lead_len_none:
  assumes "lead_len seqs s = 0" and "[] \<notin> set seqs" and "w \<in> set seqs"
  shows "\<not> prefix w s"
proof
  assume p: "prefix w s"
  then have "w \<in> set (filter (\<lambda>w. prefix w s) seqs)" using assms(3) by simp
  then obtain v r where f: "filter (\<lambda>w. prefix w s) seqs = v # r"
    by (cases "filter (\<lambda>w. prefix w s) seqs") auto
  then have "v \<in> set (filter (\<lambda>w. prefix w s) seqs)" by simp
  then have "v \<in> set seqs" by simp
  with assms(2) have "v \<noteq> []" by auto
  with f assms(1) show False by (simp add: lead_len_def)
qed

lemma strip_front_decomp:
  "\<exists>ws. set ws \<subseteq> set seqs \<and> s = concat ws @ strip_front seqs s"
proof (induction seqs s rule: strip_front.induct)
  case (1 seqs s)
  show ?case
  proof (cases "lead_len seqs s = 0 \<or> s = []")
    case True
    then have "strip_front seqs s = s" by (subst strip_front.simps) simp
    then have "set [] \<subseteq> set seqs \<and> s = concat [] @ strip_front seqs s" by simp
    then show ?thesis by blast
  next
    case False
    then obtain w where w: "w \<in> set seqs" "prefix w s" "lead_len seqs s = length w"
      using lead_len_prefix[of seqs s] by auto
    from 1[OF False] obtain ws where ws: "set ws \<subseteq> set seqs"
      "drop (lead_len seqs s) s = concat ws @ strip_front seqs (drop (lead_len seqs s) s)"
      by blast
    have step: "strip_front seqs s = strip_front seqs (drop (lead_len seqs s) s)"
      using False by (subst strip_front.simps) simp
    have "s = w @ drop (length w) s" using w(2) by (auto simp: prefix_def)
    then have "s = concat (w # ws) @ strip_front seqs s"
      using ws(2) w(3) step by simp
    moreover have "set (w # ws) \<subseteq> set seqs" using w(1) ws(1) by simp
    ultimately show ?thesis by blast
  qed
qed

lemma strip_front_no_lead:
  "[] \<notin> set seqs \<Longrightarrow> w \<in> set seqs \<Longrightarrow> \<not> prefix w (strip_front seqs s)"
proof (induction seqs s rule: strip_front.induct)
  case (1 seqs s)
  show ?case
  proof (cases "lead_len seqs s = 0 \<or> s = []")
    case True
    then have eq: "strip_front seqs s = s" by (subst strip_front.simps) simp
    show ?thesis
    proof (cases "s = []")
      case True
      with 1(2,3) eq show ?thesis by auto
    next
      case False
      with True have "lead_len seqs s = 0" by simp
      then show ?thesis unfolding eq using 1(2,3) by (rule lead_len_none)
    qed
  next
    case False
    have "strip_front seqs s = strip_front seqs (drop (lead_len seqs s) s)"
      using False by (subst strip_front.simps) simp
    with 1(1)[OF False 1(2,3)] show ?thesis by simp
  qed
qed

lemma white_space_nonempty: "[] \<notin> set white_space"
  by (simp add: white_space_def)

lemma strip_decomp: "\<exists>l r. s = l @ strip s @ r \<and> white l \<and> white r"
proof -
  obtain ws1 where 1: "set ws1 \<subseteq> set white_space" "s = concat ws1 @ lstrip s"
    unfolding lstrip_def using strip_front_decomp by blast
  obtain ws2 where 2: "set ws2 \<subseteq> set (map rev white_space)"
    "rev (lstrip s) = concat ws2 @ strip_front (map rev white_space) (rev (lstrip s))"
    using strip_front_decomp by blast
  have "rev (rev (lstrip s)) =
        rev (strip_front (map rev white_space) (rev (lstrip s))) @ rev (concat ws2)"
    by (subst 2(2)) simp
  then have 3: "lstrip s = strip s @ concat (map rev (rev ws2))"
    by (simp add: strip_def rstrip_def rev_concat)
  have "set (map rev (rev ws2)) \<subseteq> set white_space"
    using 2(1) by auto
  then have "white (concat (map rev (rev ws2)))" unfolding white_def by blast
  moreover have "white (concat ws1)" using 1(1) unfolding white_def by blast
  moreover have "s = concat ws1 @ strip s @ concat (map rev (rev ws2))"
    using 1(2) 3 by simp
  ultimately show ?thesis by blast
qed

lemma strip_maximal:
  assumes "w \<in> set white_space"
  shows "\<not> prefix w (strip s)" and "\<not> suffix w (strip s)"
proof -
  have "rev w \<in> set (map rev white_space)" using assms by simp
  moreover have "[] \<notin> set (map rev white_space)" using white_space_nonempty by auto
  ultimately have "\<not> prefix (rev w) (strip_front (map rev white_space) (rev (lstrip s)))"
    by (rule strip_front_no_lead[rotated])
  then show "\<not> suffix w (strip s)"
    by (simp add: strip_def rstrip_def suffix_to_prefix)
  have nl: "\<not> prefix w (lstrip s)"
    unfolding lstrip_def using white_space_nonempty assms by (rule strip_front_no_lead)
  obtain ws2 where d: "rev (lstrip s) = concat ws2 @ strip_front (map rev white_space) (rev (lstrip s))"
    using strip_front_decomp by blast
  have "rev (rev (lstrip s)) =
        rev (strip_front (map rev white_space) (rev (lstrip s))) @ rev (concat ws2)"
    by (subst d) simp
  then have "lstrip s = strip s @ rev (concat ws2)"
    by (simp add: strip_def rstrip_def)
  then have "prefix (strip s) (lstrip s)" by (metis prefixI)
  with nl show "\<not> prefix w (strip s)" using prefix_order.order_trans by blast
qed

lemma prompt_has_transcript: "sublist t (prepare_prompt t q h)"
  unfolding prepare_prompt_def Let_def by (rule sublist_appendI)

lemma prompt_has_question: "sublist (''Question: '' @ str_of q) (prepare_prompt t q h)"
proof -
  have "prepare_prompt t q h =
      (prompt_intro @ t @ prompt_history_label
        @ join ''\<newline>'' (map (\<lambda>(q, a). ''Q: '' @ str_of q @ ''\<newline>A: '' @ a) h) @ ''\<newline>\<newline>        '')
      @ (''Question: '' @ str_of q) @ prompt_rules"
    by (simp add: prepare_prompt_def prompt_question_label_def)
  then show ?thesis
    using sublist_appendI by metis
qed

lemma sublist_append_right_wider: "sublist x y \<Longrightarrow> sublist x (a @ y)"
  by (meson sublist_append_leftI sublist_order.order_trans)

lemma sublist_append_left_wider: "sublist x y \<Longrightarrow> sublist x (y @ b)"
  by (meson sublist_append_rightI sublist_order.order_trans)

lemma prompt_has_canned:
  assumes "(k, c) \<in> set canned"
  shows "sublist (''Question: ['' @ [CHR 0x27] @ c @ [CHR 0x27] @ '']'') (prepare_prompt t (StrList [c]) h)"
    and "sublist c (prepare_prompt t (StrList [c]) h)"
proof -
  have s: "str_of (StrList [c]) = ''['' @ [CHR 0x27] @ c @ [CHR 0x27] @ '']''"
    using assms by (rule str_of_canned)
  have q: "sublist (''Question: '' @ str_of (StrList [c])) (prepare_prompt t (StrList [c]) h)"
    by (rule prompt_has_question)
  then show 1: "sublist (''Question: ['' @ [CHR 0x27] @ c @ [CHR 0x27] @ '']'') (prepare_prompt t (StrList [c]) h)"
    unfolding s by simp
  have "sublist c ((''Question: ['' @ [CHR 0x27]) @ c @ ([CHR 0x27] @ '']''))"
    by (rule sublist_appendI)
  then have "sublist c (''Question: ['' @ [CHR 0x27] @ c @ [CHR 0x27] @ '']'')" by simp
  with 1 show "sublist c (prepare_prompt t (StrList [c]) h)"
    using sublist_order.order_trans by blast
qed

lemma menu_loop_canned_raises:
  assumes "stdin a = Line k # rest" and "(k, c) \<in> set canned"
    and "llm_content sv (llm_log a) (prepare_prompt (transcript a) (StrList [c]) (chat_history a)) = Inl e"
  shows "menu_loop sv a =
           (e, (chosen a rest)\<lparr>llm_log := llm_log a @
                  [(prepare_prompt (transcript a) (StrList [c]) (chat_history a), Inl e)]\<rparr>)"
proof -
  have "menu_loop_body sv a =
           (Inl e, (chosen a rest)\<lparr>llm_log := llm_log a @
                  [(prepare_prompt (transcript a) (StrList [c]) (chat_history a), Inl e)]\<rparr>)"
    using assms(3)
    by (simp add: menu_loop_body_canned[OF assms(1,2)] ask_ai_single_question_result chosen_fields)
  then show ?thesis by (rule menu_loop_raise)
qed

lemma chat_with_ai_loop_exit:
  assumes "stdin a = Line q # rest" and "lower q = ''exit''"
  shows "chat_with_ai_loop sv a =
           (Inr (), asked ''Enter your question (or type 'exit' or CTRL+C to go back): '' a rest)"
proof -
  have "chat_loop sv a = (Inr (), asked ''Enter your question (or type 'exit' or CTRL+C to go back): '' a rest)"
    using assms by (subst chat_loop.simps) (simp add: input_py_line)
  then show ?thesis by (simp add: chat_with_ai_loop_def)
qed

lemma chat_with_ai_loop_interrupt:
  assumes "stdin a = Interrupt # rest"
  shows "chat_with_ai_loop sv a =
           (Inr (), print_py ''\<newline>Chat interrupted. Returning to menu...''
                      (asked ''Enter your question (or type 'exit' or CTRL+C to go back): '' a rest))"
proof -
  have "chat_loop sv a =
      (Inl KeyboardInterrupt, asked ''Enter your question (or type 'exit' or CTRL+C to go back): '' a rest)"
    using assms by (subst chat_loop.simps) (simp add: input_py_interrupt)
  then show ?thesis by (simp add: chat_with_ai_loop_def)
qed

lemma chat_with_ai_loop_interrupted_call:
  assumes "stdin a = Line q # rest" and "lower q \<noteq> ''exit''"
    and "llm_content sv (llm_log a) (prepare_prompt (transcript a) (Str q) (chat_history a)) = Inl KeyboardInterrupt"
  shows "chat_with_ai_loop sv a =
           (Inr (), print_py ''\<newline>Chat interrupted. Returning to menu...''
              ((asked ''Enter your question (or type 'exit' or CTRL+C to go back): '' a rest)
                 \<lparr>llm_log := llm_log a @
                    [(prepare_prompt (transcript a) (Str q) (chat_history a), Inl KeyboardInterrupt)]\<rparr>))"
proof -
  have "chat_loop sv a =
      (Inl KeyboardInterrupt,
       (asked ''Enter your question (or type 'exit' or CTRL+C to go back): '' a rest)
                 \<lparr>llm_log := llm_log a @
                    [(prepare_prompt (transcript a) (Str q) (chat_history a), Inl KeyboardInterrupt)]\<rparr>)"
    using assms
    by (subst chat_loop.simps) (simp add: input_py_line chat_with_ai_result asked_fields)
  then show ?thesis by (simp add: chat_with_ai_loop_def)
qed

lemma map_of_menu_3: "map_of menu_options ''3'' = Some (''Chat with AI Assistant'', ChatWithAiLoop, [])"
  by (simp add: menu_options_def)

lemma map_of_menu_6: "map_of menu_options ''6'' = Some (''Change Video'', ChangeVideo, [])"
  by (simp add: menu_options_def)

lemma failed_iff: "failed (p, r) \<longleftrightarrow> (\<exists>msg. r = Inl (Error msg))"
  by (auto simp: failed_def split: sum.splits exn.splits)

lemma fails_last_no_error:
  assumes "fails_last e new" and "\<And>msg. e \<noteq> Some (Error msg)"
  shows "list_all (\<lambda>x. \<not> failed x) new"
  using assms unfolding fails_last_def by blast

lemma ends_same: "llm_log b = llm_log a \<Longrightarrow> ends_on_failure a e b"
  by (simp add: ends_on_failure_def fails_last_def)

lemma ends_print: "ends_on_failure a e b \<Longrightarrow> ends_on_failure a e (print_py s b)"
  by (simp add: ends_on_failure_def print_py_def)

lemma ends_seq:
  assumes "ends_on_failure a e1 b" and "\<And>msg. e1 \<noteq> Some (Error msg)"
    and "ends_on_failure b e c"
  shows "ends_on_failure a e c"
proof -
  from assms(1) obtain n1 where 1: "llm_log b = llm_log a @ n1" "fails_last e1 n1"
    by (auto simp: ends_on_failure_def)
  have ok1: "list_all (\<lambda>x. \<not> failed x) n1"
    using 1(2) assms(2) by (rule fails_last_no_error)
  from assms(3) obtain n2 where 2: "llm_log c = llm_log b @ n2" "fails_last e n2"
    by (auto simp: ends_on_failure_def)
  have "fails_last e (n1 @ n2)"
    using 2(2) unfolding fails_last_def
  proof
    assume "list_all (\<lambda>x. \<not> failed x) n2"
    with ok1 show "list_all (\<lambda>x. \<not> failed x) (n1 @ n2) \<or>
      (\<exists>pre p msg. n1 @ n2 = pre @ [(p, Inl (Error msg))] \<and> list_all (\<lambda>x. \<not> failed x) pre \<and>
         e = Some (Error msg))" by simp
  next
    assume "\<exists>pre p msg. n2 = pre @ [(p, Inl (Error msg))] \<and> list_all (\<lambda>x. \<not> failed x) pre \<and>
         e = Some (Error msg)"
    then obtain pre p msg where "n2 = pre @ [(p, Inl (Error msg))]"
      "list_all (\<lambda>x. \<not> failed x) pre" "e = Some (Error msg)" by blast
    with ok1 have "n1 @ n2 = (n1 @ pre) @ [(p, Inl (Error msg))] \<and>
      list_all (\<lambda>x. \<not> failed x) (n1 @ pre) \<and> e = Some (Error msg)" by simp
    then show "list_all (\<lambda>x. \<not> failed x) (n1 @ n2) \<or>
      (\<exists>pre p msg. n1 @ n2 = pre @ [(p, Inl (Error msg))] \<and> list_all (\<lambda>x. \<not> failed x) pre \<and>
         e = Some (Error msg))" by blast
  qed
  with 1(1) 2(1) show ?thesis by (auto simp: ends_on_failure_def)
qed

lemma ends_caught:
  assumes "ends_on_failure a e1 b" and "\<And>msg. e1 \<noteq> Some (Error msg)"
  shows "ends_on_failure a e b"
proof -
  have "ends_on_failure b e b" by (rule ends_same) simp
  with assms show ?thesis by (rule ends_seq)
qed

lemma ends_input: "input_py p a = (r, b) \<Longrightarrow> ends_on_failure a e b"
  by (rule ends_same) (auto simp: input_py_def Let_def split: list.splits event.splits)

lemma fails_last_one_raise: "fails_last (Some e) [(p, Inl e)]"
proof (cases e)
  case (Error msg)
  have "[(p, Inl (Error msg))] = [] @ [(p, Inl (Error msg))] \<and>
        list_all (\<lambda>x. \<not> failed x) [] \<and> Some (Error msg) = Some (Error msg)"
    by simp
  then show ?thesis unfolding fails_last_def Error by blast
qed (simp_all add: fails_last_def failed_def)

lemma fails_last_one_reply: "fails_last e [(p, Inr c)]"
  by (simp add: fails_last_def failed_def)

lemma ends_chat_with_ai:
  assumes "chat_with_ai sv t q a = (r, b)"
  shows "ends_on_failure a (raised r) b"
proof (cases "llm_content sv (llm_log a) (prepare_prompt t q (chat_history a))")
  case (Inl e)
  with assms have "r = Inl e" "llm_log b = llm_log a @ [(prepare_prompt t q (chat_history a), Inl e)]"
    unfolding chat_with_ai_result by auto
  then show ?thesis
    unfolding ends_on_failure_def using fails_last_one_raise by (simp add: raised_def)
next
  case (Inr c)
  with assms have "llm_log b = llm_log a @ [(prepare_prompt t q (chat_history a), Inr c)]"
    unfolding chat_with_ai_result by auto
  then show ?thesis
    unfolding ends_on_failure_def using fails_last_one_reply by simp
qed

lemma ends_chat_loop: "chat_loop sv a = (r, b) \<Longrightarrow> ends_on_failure a (raised r) b"
proof (induction sv a arbitrary: r b rule: chat_loop.induct)
  case (1 sv a)
  obtain x1 a1 where inp: "input_py ''Enter your question (or type 'exit' or CTRL+C to go back): '' a = (x1, a1)"
    by (cases "input_py ''Enter your question (or type 'exit' or CTRL+C to go back): '' a")
  have e1: "ends_on_failure a e a1" for e using inp by (rule ends_input)
  show ?case
  proof (cases x1)
    case (Inl e)
    have "(r, b) = (Inl e, a1)"
      using 1(2) inp Inl by (subst (asm) chat_loop.simps) simp
    then have "b = a1" by simp
    then show ?thesis using e1[of "raised r"] by simp
  next
    case (Inr question)
    show ?thesis
    proof (cases "lower question = ''exit''")
      case True
      have "(r, b) = (Inr (), a1)"
        using 1(2) inp Inr True by (subst (asm) chat_loop.simps) simp
      then have "b = a1" by simp
      then show ?thesis using e1[of "raised r"] by simp
    next
      case False
      obtain x2 a2 where cw: "chat_with_ai sv (transcript a1) (Str question) a1 = (x2, a2)"
        by (cases "chat_with_ai sv (transcript a1) (Str question) a1")
      have none: "\<And>msg. (None :: exn option) \<noteq> Some (Error msg)" by simp
      have e2: "ends_on_failure a (raised x2) a2"
        using e1[of None] none ends_chat_with_ai[OF cw] by (rule ends_seq)
      show ?thesis
      proof (cases x2)
        case (Inl e)
        have "(r, b) = (Inl e, a2)"
          using 1(2) inp \<open>x1 = Inr question\<close> False cw Inl
          by (subst (asm) chat_loop.simps) simp
        then have "raised r = raised x2" "b = a2" using Inl by (simp_all add: raised_def)
        then show ?thesis using e2 by simp
      next
        case (Inr answer)
        have rec: "chat_loop sv (print_py (''\<newline>Answer:\<newline>'' @ '' '' @ answer) a2) = (r, b)"
          using 1(2) inp \<open>x1 = Inr question\<close> False cw Inr
          by (subst (asm) chat_loop.simps) simp
        have 3: "ends_on_failure (print_py (''\<newline>Answer:\<newline>'' @ '' '' @ answer) a2) (raised r) b"
          using 1(1)[OF inp[symmetric] \<open>x1 = Inr question\<close> False cw[symmetric] Inr rec] .
        have "raised x2 = None" using Inr by (simp add: raised_def)
        then have "ends_on_failure a None a2" using e2 by simp
        then have 2: "ends_on_failure a None (print_py (''\<newline>Answer:\<newline>'' @ '' '' @ answer) a2)"
          by (rule ends_print)
        show ?thesis using 2 none 3 by (rule ends_seq)
      qed
    qed
  qed
qed

lemma ends_chat_with_ai_loop:
  assumes "chat_with_ai_loop sv a = (r, b)"
  shows "ends_on_failure a (raised r) b"
proof -
  obtain x c where cl: "chat_loop sv a = (x, c)" by (cases "chat_loop sv a")
  have e: "ends_on_failure a (raised x) c" using cl by (rule ends_chat_loop)
  show ?thesis
  proof (cases "x = Inl KeyboardInterrupt")
    case True
    with assms cl have rb: "r = Inr ()" "b = print_py ''\<newline>Chat interrupted. Returning to menu...'' c"
      by (simp_all add: chat_with_ai_loop_def)
    have ki: "\<And>msg. raised x \<noteq> Some (Error msg)" using True by (simp add: raised_def)
    have "ends_on_failure a None c" using e ki by (rule ends_caught)
    then have "ends_on_failure a None (print_py ''\<newline>Chat interrupted. Returning to menu...'' c)"
      by (rule ends_print)
    then show ?thesis using rb by (simp add: raised_def)
  next
    case False
    with assms cl have "r = x" "b = c"
      by (auto simp: chat_with_ai_loop_def split: sum.splits exn.splits)
    with e show ?thesis by simp
  qed
qed

lemma change_video_llm_log: "change_video sv a = (r, b) \<Longrightarrow> llm_log b = llm_log a"
  by (cases "input_py ''Please enter the YouTube video URL: '' a")
     (auto simp: change_video_def input_py_def Let_def split: sum.splits list.splits event.splits)

lemma ends_call0:
  assumes "call0 sv act a = (r, b)"
  shows "ends_on_failure a (raised r) b"
proof (cases act)
  case PrintTranscript
  with assms have "llm_log b = llm_log a"
    by (auto simp: call0_def print_transcript_def print_py_def)
  then show ?thesis by (rule ends_same)
next
  case AskAiSingleQuestion
  with assms have "llm_log b = llm_log a" by (auto simp: call0_def)
  then show ?thesis by (rule ends_same)
next
  case ChatWithAiLoop
  with assms have "chat_with_ai_loop sv a = (r, b)" by (simp add: call0_def)
  then show ?thesis by (rule ends_chat_with_ai_loop)
next
  case ChangeVideo
  with assms have "change_video sv a = (r, b)" by (simp add: call0_def)
  then have "llm_log b = llm_log a" by (rule change_video_llm_log)
  then show ?thesis by (rule ends_same)
next
  case ExitApp
  with assms have "llm_log b = llm_log a"
    by (auto simp: call0_def exit_app_def print_py_def)
  then show ?thesis by (rule ends_same)
qed

lemma ends_call1:
  assumes "call1 sv act q a = (r, b)"
  shows "ends_on_failure a (raised r) b"
proof (cases "act = AskAiSingleQuestion")
  case True
  obtain x c where cw: "chat_with_ai sv (transcript a) (StrList q) a = (x, c)"
    by (cases "chat_with_ai sv (transcript a) (StrList q) a")
  have e: "ends_on_failure a (raised x) c" using cw by (rule ends_chat_with_ai)
  show ?thesis
  proof (cases x)
    case (Inl e')
    with assms cw True have "raised r = raised x" "b = c"
      by (auto simp: call1_def ask_ai_single_question_def raised_def)
    with e show ?thesis by simp
  next
    case (Inr answer)
    with assms cw True have rb: "raised r = raised x" "b = print_py answer c"
      by (auto simp: call1_def ask_ai_single_question_def raised_def)
    have "ends_on_failure a (raised x) (print_py answer c)" using e by (rule ends_print)
    with rb show ?thesis by simp
  qed
next
  case False
  with assms have "llm_log b = llm_log a" by (cases act) (auto simp: call1_def)
  then show ?thesis by (rule ends_same)
qed

lemma ends_menu_loop_body:
  assumes "menu_loop_body sv a = (r, b)"
  shows "ends_on_failure a (raised r) b"
proof -
  obtain x1 a1 where inp: "input_py ''Choose an option: '' (print_menu a) = (x1, a1)"
    by (cases "input_py ''Choose an option: '' (print_menu a)")
  have l1: "llm_log a1 = llm_log a"
    using inp by (auto simp: input_py_def Let_def print_menu_fields split: list.splits event.splits)
  have e1: "ends_on_failure a None a1" using l1 by (rule ends_same)
  have none: "\<And>msg. (None :: exn option) \<noteq> Some (Error msg)" by simp
  have "ends_on_failure a1 (raised r) b"
  proof (cases x1)
    case (Inl e)
    with assms inp have "b = a1" by (simp add: menu_loop_body_def)
    then have "llm_log b = llm_log a1" by simp
    then show ?thesis by (rule ends_same)
  next
    case (Inr choice)
    show ?thesis
    proof (cases "map_of menu_options choice")
      case None
      with assms inp Inr have "b = print_py ''Invalid choice. Please try again.'' a1"
        by (simp add: menu_loop_body_def)
      then have "llm_log b = llm_log a1" by (simp add: print_py_def)
      then show ?thesis by (rule ends_same)
    next
      case (Some entry)
      obtain d act question where entry: "entry = (d, act, question)" by (cases entry)
      show ?thesis
      proof (cases "question = []")
        case True
        with assms inp Inr Some entry have "call0 sv act a1 = (r, b)"
          by (simp add: menu_loop_body_def)
        then show ?thesis by (rule ends_call0)
      next
        case False
        with assms inp Inr Some entry have "call1 sv act question a1 = (r, b)"
          by (simp add: menu_loop_body_def)
        then show ?thesis by (rule ends_call1)
      qed
    qed
  qed
  with e1 none show ?thesis by (rule ends_seq)
qed

lemma ends_menu_loop: "menu_loop sv a = (e, b) \<Longrightarrow> ends_on_failure a (Some e) b"
proof (induction sv a arbitrary: e b rule: menu_loop.induct)
  case (1 sv a)
  obtain x1 a1 where body: "menu_loop_body sv a = (x1, a1)"
    by (cases "menu_loop_body sv a")
  have e1: "ends_on_failure a (raised x1) a1" using body by (rule ends_menu_loop_body)
  show ?case
  proof (cases x1)
    case (Inl e')
    have "(e, b) = (e', a1)"
      using 1(2) body Inl by (subst (asm) menu_loop.simps) simp
    then have "Some e = raised x1" "b = a1" using Inl by (simp_all add: raised_def)
    with e1 show ?thesis by simp
  next
    case (Inr u)
    have rec: "menu_loop sv a1 = (e, b)"
      using 1(2) body Inr by (subst (asm) menu_loop.simps) simp
    have 2: "ends_on_failure a1 (Some e) b" using 1(1)[OF body[symmetric] Inr rec] .
    have "raised x1 = None" using Inr by (simp add: raised_def)
    then have 1: "ends_on_failure a None a1" using e1 by simp
    have none: "\<And>msg. (None :: exn option) \<noteq> Some (Error msg)" by simp
    show ?thesis using 1 none 2 by (rule ends_seq)
  qed
qed

lemma fails_last_nth:
  assumes "fails_last e new" and "i < length new" and "new ! i = (p, Inl (Error msg))"
  shows "Suc i = length new \<and> e = Some (Error msg)"
proof -
  have f: "failed (new ! i)" using assms(3) by (simp add: failed_iff)
  have "\<not> list_all (\<lambda>x. \<not> failed x) new"
    using f assms(2) by (auto simp: list_all_iff)
  with assms(1) obtain pre p' msg' where n: "new = pre @ [(p', Inl (Error msg'))]"
    "list_all (\<lambda>x. \<not> failed x) pre" "e = Some (Error msg')"
    unfolding fails_last_def by blast
  have "\<not> i < length pre"
  proof
    assume "i < length pre"
    then have "new ! i = pre ! i" "pre ! i \<in> set pre" using n(1) by (simp_all add: nth_append)
    with n(2) f show False by (auto simp: list_all_iff)
  qed
  with assms(2) n(1) have i: "i = length pre" by simp
  with n(1) assms(3) have "msg' = msg" by simp
  with i n show ?thesis by simp
qed

lemma input_py_eof:
  "stdin a = [] \<Longrightarrow> input_py p a = (Inl (Error ''EOF when reading a line''), asked p a [])"
  by (cases a) (simp add: input_py_def asked_def)

lemma chat_with_ai_loop_error:
  assumes "stdin a = Line q # rest" and "lower q \<noteq> ''exit''"
    and "llm_content sv (llm_log a) (prepare_prompt (transcript a) (Str q) (chat_history a)) = Inl (Error msg)"
  shows "chat_with_ai_loop sv a =
           (Inl (Error msg),
            (asked ''Enter your question (or type 'exit' or CTRL+C to go back): '' a rest)
               \<lparr>llm_log := llm_log a @
                  [(prepare_prompt (transcript a) (Str q) (chat_history a), Inl (Error msg))]\<rparr>)"
proof -
  have "chat_loop sv a =
      (Inl (Error msg),
       (asked ''Enter your question (or type 'exit' or CTRL+C to go back): '' a rest)
                 \<lparr>llm_log := llm_log a @
                    [(prepare_prompt (transcript a) (Str q) (chat_history a), Inl (Error msg))]\<rparr>)"
    using assms
    by (subst chat_loop.simps) (simp add: input_py_line chat_with_ai_result asked_fields)
  then show ?thesis by (simp add: chat_with_ai_loop_def)
qed

lemma chat_with_ai_loop_eof:
  assumes "stdin a = []"
  shows "chat_with_ai_loop sv a =
           (Inl (Error ''EOF when reading a line''),
            asked ''Enter your question (or type 'exit' or CTRL+C to go back): '' a [])"
proof -
  have "chat_loop sv a =
      (Inl (Error ''EOF when reading a line''),
       asked ''Enter your question (or type 'exit' or CTRL+C to go back): '' a [])"
    using assms by (subst chat_loop.simps) (simp add: input_py_eof)
  then show ?thesis by (simp add: chat_with_ai_loop_def)
qed

lemma chat_with_ai_loop_passes_error:
  "chat_loop sv a = (Inl (Error msg), b) \<Longrightarrow> chat_with_ai_loop sv a = (Inl (Error msg), b)"
  by (simp add: chat_with_ai_loop_def)

lemma menu_loop_chat_error:
  assumes "stdin a = Line ''3'' # Line q # rest" and "lower q \<noteq> ''exit''"
    and "llm_content sv (llm_log a) (prepare_prompt (transcript a) (Str q) (chat_history a)) = Inl (Error msg)"
  shows "menu_loop sv a =
           (Error msg,
            (asked ''Enter your question (or type 'exit' or CTRL+C to go back): ''
               (chosen a (Line q # rest)) rest)
               \<lparr>llm_log := llm_log a @
                  [(prepare_prompt (transcript a) (Str q) (chat_history a), Inl (Error msg))]\<rparr>)"
proof -
  let ?c = "chosen a (Line q # rest)"
  have "menu_loop_body sv a = chat_with_ai_loop sv ?c"
    by (simp add: menu_loop_body_line[OF assms(1)] map_of_menu_3 call0_def)
  also have "\<dots> = (Inl (Error msg),
            (asked ''Enter your question (or type 'exit' or CTRL+C to go back): '' ?c rest)
               \<lparr>llm_log := llm_log ?c @
                  [(prepare_prompt (transcript ?c) (Str q) (chat_history ?c), Inl (Error msg))]\<rparr>)"
    by (rule chat_with_ai_loop_error) (simp_all add: chosen_fields assms(2,3))
  finally have "menu_loop_body sv a = (Inl (Error msg),
            (asked ''Enter your question (or type 'exit' or CTRL+C to go back): '' ?c rest)
               \<lparr>llm_log := llm_log a @
                  [(prepare_prompt (transcript a) (Str q) (chat_history a), Inl (Error msg))]\<rparr>)"
    by (simp add: chosen_fields)
  then show ?thesis by (rule menu_loop_raise)
qed

lemma menu_loop_change_video_error:
  assumes "stdin a = Line ''6'' # Line u # rest" and "fetch_video_transcript sv u = Inl e"
  shows "menu_loop sv a =
           (e, asked ''Please enter the YouTube video URL: '' (chosen a (Line u # rest)) rest)"
proof -
  have "menu_loop_body sv a = change_video sv (chosen a (Line u # rest))"
    by (simp add: menu_loop_body_line[OF assms(1)] map_of_menu_6 call0_def)
  also have "\<dots> = (Inl e, asked ''Please enter the YouTube video URL: '' (chosen a (Line u # rest)) rest)"
    using assms(2) by (simp add: change_video_def input_py_line chosen_fields)
  finally show ?thesis by (rule menu_loop_raise)
qed

lemma menu_loop_eof:
  assumes "stdin a = []"
  shows "menu_loop sv a = (Error ''EOF when reading a line'', chosen a [])"
proof -
  have "stdin (print_menu a) = []" using assms by (simp add: print_menu_stdin)
  then have "input_py ''Choose an option: '' (print_menu a) =
      (Inl (Error ''EOF when reading a line''), chosen a [])"
    unfolding chosen_def by (rule input_py_eof)
  then have "menu_loop_body sv a = (Inl (Error ''EOF when reading a line''), chosen a [])"
    by (simp add: menu_loop_body_def)
  then show ?thesis by (rule menu_loop_raise)
qed

section \<open>Properties of the session\<close>

text \<open>
  Claim C4. An assistant call that returns appends exactly the pair of its question and
  its answer to the end of the history; one that raises leaves the history as it was.
  Under every single action, and over the whole menu loop and the whole run on any
  input, the history at the start is a prefix of the history at the end, and the number
  of pairs added is the number of assistant calls that returned.
\<close>

theorem chat_history_append_only:
  "(\<forall>ans b. chat_with_ai sv t q a = (Inr ans, b) \<longrightarrow> chat_history b = chat_history a @ [(q, ans)]) \<and>
   (\<forall>e b. chat_with_ai sv t q a = (Inl e, b) \<longrightarrow> chat_history b = chat_history a) \<and>
   prefix (chat_history a) (chat_history (snd (call0 sv act a))) \<and>
   prefix (chat_history a) (chat_history (snd (call1 sv act qs a))) \<and>
   prefix (chat_history a) (chat_history (snd (menu_loop sv a))) \<and>
   length (chat_history (snd (menu_loop sv a))) =
     length (chat_history a) + length (answers (drop (length (llm_log a)) (llm_log (snd (menu_loop sv a))))) \<and>
   prefix (chat_history a) (chat_history (snd (run sv url a))) \<and>
   length (chat_history (snd (run sv url a))) =
     length (chat_history a) + length (answers (drop (length (llm_log a)) (llm_log (snd (run sv url a)))))"
proof -
  have 1: "\<forall>ans b. chat_with_ai sv t q a = (Inr ans, b) \<longrightarrow> chat_history b = chat_history a @ [(q, ans)]"
    unfolding chat_with_ai_result by (auto split: sum.splits)
  have 2: "\<forall>e b. chat_with_ai sv t q a = (Inl e, b) \<longrightarrow> chat_history b = chat_history a"
    unfolding chat_with_ai_result by (auto split: sum.splits)
  have 3: "extends a (snd (call0 sv act a))"
    by (rule extends_call0[of sv act a "fst (call0 sv act a)"]) simp
  have 4: "extends a (snd (call1 sv act qs a))"
    by (rule extends_call1[of sv act qs a "fst (call1 sv act qs a)"]) simp
  have 5: "extends a (snd (menu_loop sv a))"
    by (rule extends_menu_loop[of sv a "fst (menu_loop sv a)"]) simp
  have 6: "extends a (snd (run sv url a))"
    by (rule extends_run[of sv url a "fst (run sv url a)"]) simp
  from 1 2 extends_prefix_length[OF 3] extends_prefix_length[OF 4]
    extends_prefix_length[OF 5] extends_prefix_length[OF 6]
  show ?thesis by blast
qed

text \<open>An assistant call that returns, on the initial state.\<close>

theorem chat_history_append_only_witness:
  "chat_with_ai mock_services ''T'' (Str ''q'') (init_app []) =
     (Inr ''Mocked reply.'',
      (init_app [])\<lparr>llm_log := [(prepare_prompt ''T'' (Str ''q'') [], Inr '' Mocked reply.\<newline>'')],
                    chat_history := [(Str ''q'', ''Mocked reply.'')]\<rparr>) \<and>
   chat_history ((init_app [])\<lparr>llm_log := [(prepare_prompt ''T'' (Str ''q'') [], Inr '' Mocked reply.\<newline>'')],
                    chat_history := [(Str ''q'', ''Mocked reply.'')]\<rparr>) =
     chat_history (init_app []) @ [(Str ''q'', ''Mocked reply.'')]"
proof -
  let ?b = "(init_app [])\<lparr>llm_log := [(prepare_prompt ''T'' (Str ''q'') [], Inr '' Mocked reply.\<newline>'')],
                    chat_history := [(Str ''q'', ''Mocked reply.'')]\<rparr>"
  have h: "chat_with_ai mock_services ''T'' (Str ''q'') (init_app []) = (Inr ''Mocked reply.'', ?b)"
  proof -
    have "strip '' Mocked reply.\<newline>'' = ''Mocked reply.''" by code_simp
    then show ?thesis
      by (simp add: chat_with_ai_result mock_services_def init_app_def)
  qed
  from chat_history_append_only[of mock_services "''T''" "Str ''q''" "init_app []"] h
  have "chat_history ?b = chat_history (init_app []) @ [(Str ''q'', ''Mocked reply.'')]"
    by blast
  with h show ?thesis by blast
qed

text \<open>
  Claim C5. When the URL read by the change-video action yields a transcript, the action
  returns normally with the transcript field set to it and the chat history unchanged.
  Invoked on the resulting state, printing shows the new transcript, each canned question
  sends a prompt built from the new transcript, and so does the first question of a chat.
\<close>

theorem change_video_replaces_transcript:
  assumes "stdin a = Line url # rest" and "fetch_video_transcript sv url = Inr t"
  shows "change_video sv a =
           (Inr (), (asked ''Please enter the YouTube video URL: '' a rest)\<lparr>transcript := t\<rparr>) \<and>
         transcript (snd (change_video sv a)) = t \<and>
         chat_history (snd (change_video sv a)) = chat_history a \<and>
         print_transcript (snd (change_video sv a)) =
           (Inr (), print_py (''\<newline>Punctuated Transcript:\<newline>'' @ '' '' @ t) (snd (change_video sv a))) \<and>
         (\<forall>k c. (k, c) \<in> set canned \<longrightarrow>
            (\<exists>reply. llm_log (snd (call1 sv AskAiSingleQuestion [c] (snd (change_video sv a)))) =
               llm_log a @ [(prepare_prompt t (StrList [c]) (chat_history a), reply)])) \<and>
         (\<forall>qn more. rest = Line qn # more \<and> lower qn \<noteq> ''exit'' \<longrightarrow>
            (\<exists>reply. llm_log (snd (chat_with_ai_loop sv (snd (change_video sv a)))) ! length (llm_log a) =
               (prepare_prompt t (Str qn) (chat_history a), reply)))"
proof -
  let ?b = "(asked ''Please enter the YouTube video URL: '' a rest)\<lparr>transcript := t\<rparr>"
  have cv: "change_video sv a = (Inr (), ?b)"
    using assms by (simp add: change_video_def input_py_line)
  have f: "transcript ?b = t" "chat_history ?b = chat_history a" "llm_log ?b = llm_log a"
    "stdin ?b = rest"
    by (simp_all add: asked_fields)
  have pt: "print_transcript ?b = (Inr (), print_py (''\<newline>Punctuated Transcript:\<newline>'' @ '' '' @ t) ?b)"
    by (simp add: print_transcript_def f)
  have canned: "\<exists>reply. llm_log (snd (call1 sv AskAiSingleQuestion [c] ?b)) =
               llm_log a @ [(prepare_prompt t (StrList [c]) (chat_history a), reply)]" for c
    by (simp add: call1_def ask_ai_single_question_result f print_py_def split: sum.splits)
  have chat: "\<exists>reply. llm_log (snd (chat_with_ai_loop sv ?b)) ! length (llm_log a) =
               (prepare_prompt t (Str qn) (chat_history a), reply)"
    if rest: "rest = Line qn # more" and ne: "lower qn \<noteq> ''exit''" for qn more
  proof -
    let ?p = "''Enter your question (or type 'exit' or CTRL+C to go back): ''"
    let ?b1 = "asked ?p ?b more"
    let ?P = "prepare_prompt t (Str qn) (chat_history a)"
    have inp: "input_py ?p ?b = (Inr qn, ?b1)"
      by (rule input_py_line) (simp add: asked_fields rest)
    have f1: "transcript ?b1 = t" "chat_history ?b1 = chat_history a" "llm_log ?b1 = llm_log a"
      by (simp_all add: asked_fields)
    obtain x2 b2 where cw: "chat_with_ai sv t (Str qn) ?b1 = (x2, b2)"
      by (cases "chat_with_ai sv t (Str qn) ?b1")
    then have log2: "llm_log b2 = llm_log a @ [(?P, llm_content sv (llm_log a) ?P)]"
      unfolding chat_with_ai_result f1 by (auto split: sum.splits)
    obtain r b3 where cl: "chat_loop sv ?b = (r, b3)" by (cases "chat_loop sv ?b")
    have "extends b2 b3"
    proof (cases x2)
      case (Inl e)
      with cl inp cw ne have "b3 = b2" by (subst (asm) chat_loop.simps) (simp add: f1)
      then show ?thesis by (simp add: extends_refl)
    next
      case (Inr answer)
      with cl inp cw ne
      have "chat_loop sv (print_py (''\<newline>Answer:\<newline>'' @ '' '' @ answer) b2) = (r, b3)"
        by (subst (asm) chat_loop.simps) (simp add: f1)
      then have "extends (print_py (''\<newline>Answer:\<newline>'' @ '' '' @ answer) b2) b3"
        by (rule extends_chat_loop)
      then show ?thesis by (simp add: extends_def print_py_def)
    qed
    then obtain l where log3: "llm_log b3 = llm_log b2 @ l" by (auto simp: extends_def)
    have "llm_log (snd (chat_with_ai_loop sv ?b)) = llm_log b3"
      using cl by (auto simp: chat_with_ai_loop_def print_py_def split: sum.splits exn.splits)
    then show ?thesis by (simp add: log3 log2 nth_append)
  qed
  show ?thesis
    unfolding cv snd_conv using f pt canned chat by blast
qed

text \<open>A session with a transcript and one turn of history changes to the video \<open>ABC123\<close>.\<close>

theorem change_video_replaces_transcript_witness:
  "stdin ((init_app [Line ''https://youtu.be/ABC123'', Line ''1''])
            \<lparr>transcript := ''old text'', chat_history := [(Str ''q'', ''old answer'')]\<rparr>) =
     Line ''https://youtu.be/ABC123'' # [Line ''1''] \<and>
   fetch_video_transcript mock_services ''https://youtu.be/ABC123'' = Inr ''Hello world.\<newline>How are you?'' \<and>
   transcript (snd (change_video mock_services
      ((init_app [Line ''https://youtu.be/ABC123'', Line ''1''])
            \<lparr>transcript := ''old text'', chat_history := [(Str ''q'', ''old answer'')]\<rparr>))) =
     ''Hello world.\<newline>How are you?'' \<and>
   chat_history (snd (change_video mock_services
      ((init_app [Line ''https://youtu.be/ABC123'', Line ''1''])
            \<lparr>transcript := ''old text'', chat_history := [(Str ''q'', ''old answer'')]\<rparr>))) =
     [(Str ''q'', ''old answer'')]"
proof -
  let ?a = "(init_app [Line ''https://youtu.be/ABC123'', Line ''1''])
            \<lparr>transcript := ''old text'', chat_history := [(Str ''q'', ''old answer'')]\<rparr>"
  have i: "stdin ?a = Line ''https://youtu.be/ABC123'' # [Line ''1'']"
    by (simp add: init_app_def)
  have f: "fetch_video_transcript mock_services ''https://youtu.be/ABC123'' = Inr ''Hello world.\<newline>How are you?''"
    by code_simp
  have h: "chat_history ?a = [(Str ''q'', ''old answer'')]" by (simp add: init_app_def)
  have "transcript (snd (change_video mock_services ?a)) = ''Hello world.\<newline>How are you?'' \<and>
        chat_history (snd (change_video mock_services ?a)) = chat_history ?a"
    using change_video_replaces_transcript[OF i f] by blast
  with i f h show ?thesis by simp
qed

text \<open>
  Claim C6. An \<open>Exception\<close> raised while the first transcript is acquired is reported by
  \<open>run\<close> as one line and \<open>run\<close> returns: the output gains that line only, so the menu is
  never shown, and no input is read. No action catches an \<open>Exception\<close>: one raised by the
  assistant call of a canned question or of a chat question, by the acquisition of the
  change-video action, or by a read at the end of the input, leaves the action and
  \<open>_menu_loop\<close> unchanged, the remaining input unread, and \<open>run\<close> reports it the same way.
  In every run of the menu loop, an assistant call that raised an \<open>Exception\<close> is the last
  call made, and the loop has ended with that exception.
\<close>

theorem error_propagation:
  "(\<forall>msg. fetch_video_transcript sv url = Inl (Error msg) \<longrightarrow>
      run sv url a = (Inr (), print_py (''Error: '' @ msg) a)) \<and>
   (\<forall>t msg b. fetch_video_transcript sv url = Inr t \<and>
      menu_loop sv (a\<lparr>transcript := t\<rparr>) = (Error msg, b) \<longrightarrow>
      run sv url a = (Inr (), print_py (''Error: '' @ msg) b)) \<and>
   (\<forall>e b. chat_with_ai sv (transcript a) q a = (Inl e, b) \<longrightarrow>
      ask_ai_single_question sv q a = (Inl e, b)) \<and>
   (\<forall>e b. menu_loop_body sv a = (Inl e, b) \<longrightarrow> menu_loop sv a = (e, b)) \<and>
   (\<forall>k c rest msg. stdin a = Line k # rest \<and> (k, c) \<in> set canned \<and>
      llm_content sv (llm_log a) (prepare_prompt (transcript a) (StrList [c]) (chat_history a)) = Inl (Error msg) \<longrightarrow>
      menu_loop sv a =
        (Error msg, (chosen a rest)\<lparr>llm_log := llm_log a @
            [(prepare_prompt (transcript a) (StrList [c]) (chat_history a), Inl (Error msg))]\<rparr>)) \<and>
   (\<forall>msg b. chat_loop sv a = (Inl (Error msg), b) \<longrightarrow>
      chat_with_ai_loop sv a = (Inl (Error msg), b)) \<and>
   (\<forall>qn rest msg. stdin a = Line qn # rest \<and> lower qn \<noteq> ''exit'' \<and>
      llm_content sv (llm_log a) (prepare_prompt (transcript a) (Str qn) (chat_history a)) = Inl (Error msg) \<longrightarrow>
      chat_with_ai_loop sv a =
        (Inl (Error msg),
         (asked ''Enter your question (or type 'exit' or CTRL+C to go back): '' a rest)
            \<lparr>llm_log := llm_log a @
               [(prepare_prompt (transcript a) (Str qn) (chat_history a), Inl (Error msg))]\<rparr>)) \<and>
   (\<forall>qn rest msg. stdin a = Line ''3'' # Line qn # rest \<and> lower qn \<noteq> ''exit'' \<and>
      llm_content sv (llm_log a) (prepare_prompt (transcript a) (Str qn) (chat_history a)) = Inl (Error msg) \<longrightarrow>
      menu_loop sv a =
        (Error msg,
         (asked ''Enter your question (or type 'exit' or CTRL+C to go back): ''
            (chosen a (Line qn # rest)) rest)
            \<lparr>llm_log := llm_log a @
               [(prepare_prompt (transcript a) (Str qn) (chat_history a), Inl (Error msg))]\<rparr>)) \<and>
   (\<forall>u rest msg. stdin a = Line u # rest \<and> fetch_video_transcript sv u = Inl (Error msg) \<longrightarrow>
      change_video sv a = (Inl (Error msg), asked ''Please enter the YouTube video URL: '' a rest)) \<and>
   (\<forall>u rest msg. stdin a = Line ''6'' # Line u # rest \<and> fetch_video_transcript sv u = Inl (Error msg) \<longrightarrow>
      menu_loop sv a =
        (Error msg, asked ''Please enter the YouTube video URL: '' (chosen a (Line u # rest)) rest)) \<and>
   (stdin a = [] \<longrightarrow> menu_loop sv a = (Error ''EOF when reading a line'', chosen a [])) \<and>
   (\<forall>e b new i p msg. menu_loop sv a = (e, b) \<and> llm_log b = llm_log a @ new \<and>
      i < length new \<and> new ! i = (p, Inl (Error msg)) \<longrightarrow>
      Suc i = length new \<and> e = Error msg)"
proof (intro conjI allI impI; (elim conjE)?)
  fix msg assume "fetch_video_transcript sv url = Inl (Error msg)"
  then show "run sv url a = (Inr (), print_py (''Error: '' @ msg) a)"
    by (simp add: run_def handle_top_def)
next
  fix t msg b assume "fetch_video_transcript sv url = Inr t" "menu_loop sv (a\<lparr>transcript := t\<rparr>) = (Error msg, b)"
  then show "run sv url a = (Inr (), print_py (''Error: '' @ msg) b)"
    by (simp add: run_def handle_top_def)
next
  fix e b assume "chat_with_ai sv (transcript a) q a = (Inl e, b)"
  then show "ask_ai_single_question sv q a = (Inl e, b)"
    by (simp add: ask_ai_single_question_def)
next
  fix e b assume "menu_loop_body sv a = (Inl e, b)"
  then show "menu_loop sv a = (e, b)" by (rule menu_loop_raise)
next
  fix k c rest msg assume "stdin a = Line k # rest" "(k, c) \<in> set canned"
    "llm_content sv (llm_log a) (prepare_prompt (transcript a) (StrList [c]) (chat_history a)) = Inl (Error msg)"
  then show "menu_loop sv a =
        (Error msg, (chosen a rest)\<lparr>llm_log := llm_log a @
            [(prepare_prompt (transcript a) (StrList [c]) (chat_history a), Inl (Error msg))]\<rparr>)"
    by (rule menu_loop_canned_raises)
next
  fix msg b assume "chat_loop sv a = (Inl (Error msg), b)"
  then show "chat_with_ai_loop sv a = (Inl (Error msg), b)"
    by (rule chat_with_ai_loop_passes_error)
next
  fix qn rest msg assume "stdin a = Line qn # rest" "lower qn \<noteq> ''exit''"
    "llm_content sv (llm_log a) (prepare_prompt (transcript a) (Str qn) (chat_history a)) = Inl (Error msg)"
  then show "chat_with_ai_loop sv a =
        (Inl (Error msg),
         (asked ''Enter your question (or type 'exit' or CTRL+C to go back): '' a rest)
            \<lparr>llm_log := llm_log a @
               [(prepare_prompt (transcript a) (Str qn) (chat_history a), Inl (Error msg))]\<rparr>)"
    by (rule chat_with_ai_loop_error)
next
  fix qn rest msg assume "stdin a = Line ''3'' # Line qn # rest" "lower qn \<noteq> ''exit''"
    "llm_content sv (llm_log a) (prepare_prompt (transcript a) (Str qn) (chat_history a)) = Inl (Error msg)"
  then show "menu_loop sv a =
        (Error msg,
         (asked ''Enter your question (or type 'exit' or CTRL+C to go back): ''
            (chosen a (Line qn # rest)) rest)
            \<lparr>llm_log := llm_log a @
               [(prepare_prompt (transcript a) (Str qn) (chat_history a), Inl (Error msg))]\<rparr>)"
    by (rule menu_loop_chat_error)
next
  fix u rest msg assume "stdin a = Line u # rest" "fetch_video_transcript sv u = Inl (Error msg)"
  then show "change_video sv a = (Inl (Error msg), asked ''Please enter the YouTube video URL: '' a rest)"
    by (simp add: change_video_def input_py_line)
next
  fix u rest msg assume "stdin a = Line ''6'' # Line u # rest" "fetch_video_transcript sv u = Inl (Error msg)"
  then show "menu_loop sv a =
        (Error msg, asked ''Please enter the YouTube video URL: '' (chosen a (Line u # rest)) rest)"
    by (rule menu_loop_change_video_error)
next
  assume "stdin a = []"
  then show "menu_loop sv a = (Error ''EOF when reading a line'', chosen a [])"
    by (rule menu_loop_eof)
next
  fix e b new i p msg
  assume ml: "menu_loop sv a = (e, b)" and log: "llm_log b = llm_log a @ new"
    and i: "i < length new" "new ! i = (p, Inl (Error msg))"
  from ends_menu_loop[OF ml] obtain new' where "llm_log b = llm_log a @ new'" "fails_last (Some e) new'"
    unfolding ends_on_failure_def by blast
  with log have "fails_last (Some e) new" by simp
  from fails_last_nth[OF this i] show "Suc i = length new" "e = Error msg" by simp_all
qed

text \<open>
  A URL without a transcript at the start; a backend that fails on the FAQ action and
  on a chat question; and a change of video to a URL without a transcript. In each case
  a further line of input stays unread.
\<close>

theorem error_propagation_witness:
  "fetch_video_transcript mock_services ''https://www.youtube.com/watch?v=nope'' = Inl (Error ''no transcript'') \<and>
   run mock_services ''https://www.youtube.com/watch?v=nope'' (init_app [Line ''1'']) =
     (Inr (), print_py ''Error: no transcript'' (init_app [Line ''1''])) \<and>
   stdin (init_app [Line ''4'', Line ''1'']) = Line ''4'' # [Line ''1''] \<and>
   (''4'', ''provide a 5 question FAQ based on the video content'') \<in> set canned \<and>
   fst (menu_loop (mock_services\<lparr>llm_content := \<lambda>log prompt. Inl (Error ''backend down'')\<rparr>)
          (init_app [Line ''4'', Line ''1''])) = Error ''backend down'' \<and>
   stdin (snd (menu_loop (mock_services\<lparr>llm_content := \<lambda>log prompt. Inl (Error ''backend down'')\<rparr>)
          (init_app [Line ''4'', Line ''1'']))) = [Line ''1''] \<and>
   stdin (init_app [Line ''3'', Line ''hi'', Line ''1'']) = Line ''3'' # Line ''hi'' # [Line ''1''] \<and>
   lower ''hi'' \<noteq> ''exit'' \<and>
   fst (menu_loop (mock_services\<lparr>llm_content := \<lambda>log prompt. Inl (Error ''backend down'')\<rparr>)
          (init_app [Line ''3'', Line ''hi'', Line ''1''])) = Error ''backend down'' \<and>
   stdin (snd (menu_loop (mock_services\<lparr>llm_content := \<lambda>log prompt. Inl (Error ''backend down'')\<rparr>)
          (init_app [Line ''3'', Line ''hi'', Line ''1'']))) = [Line ''1''] \<and>
   stdin (init_app [Line ''6'', Line ''https://youtu.be/nope'', Line ''1'']) =
     Line ''6'' # Line ''https://youtu.be/nope'' # [Line ''1''] \<and>
   fetch_video_transcript mock_services ''https://youtu.be/nope'' = Inl (Error ''no transcript'') \<and>
   fst (menu_loop mock_services (init_app [Line ''6'', Line ''https://youtu.be/nope'', Line ''1''])) =
     Error ''no transcript'' \<and>
   stdin (snd (menu_loop mock_services (init_app [Line ''6'', Line ''https://youtu.be/nope'', Line ''1'']))) =
     [Line ''1'']"
proof -
  let ?sv = "mock_services\<lparr>llm_content := \<lambda>log prompt. Inl (Error ''backend down'')\<rparr>"
  let ?a = "init_app [Line ''4'', Line ''1'']"
  let ?b = "init_app [Line ''3'', Line ''hi'', Line ''1'']"
  let ?d = "init_app [Line ''6'', Line ''https://youtu.be/nope'', Line ''1'']"
  let ?c = "''provide a 5 question FAQ based on the video content''"
  have f: "fetch_video_transcript mock_services ''https://www.youtube.com/watch?v=nope'' = Inl (Error ''no transcript'')"
    by code_simp
  have r: "run mock_services ''https://www.youtube.com/watch?v=nope'' (init_app [Line ''1'']) =
     (Inr (), print_py ''Error: no transcript'' (init_app [Line ''1'']))"
    using error_propagation[of mock_services "''https://www.youtube.com/watch?v=nope''" "init_app [Line ''1'']"] f
    by simp
  have i: "stdin ?a = Line ''4'' # [Line ''1'']" by (simp add: init_app_def)
  have m: "(''4'', ?c) \<in> set canned" by (simp add: canned_def)
  have l: "llm_content ?sv (llm_log ?a) (prepare_prompt (transcript ?a) (StrList [?c]) (chat_history ?a)) =
             Inl (Error ''backend down'')"
    by simp
  have "menu_loop ?sv ?a =
        (Error ''backend down'', (chosen ?a [Line ''1''])\<lparr>llm_log := llm_log ?a @
            [(prepare_prompt (transcript ?a) (StrList [?c]) (chat_history ?a), Inl (Error ''backend down''))]\<rparr>)"
    using error_propagation[of ?sv "[]" ?a "Str []", THEN conjunct2, THEN conjunct2, THEN conjunct2, THEN conjunct2, THEN conjunct1, rule_format,
        OF conjI[OF i conjI[OF m l]]] .
  then have 1: "fst (menu_loop ?sv ?a) = Error ''backend down''" "stdin (snd (menu_loop ?sv ?a)) = [Line ''1'']"
    by (simp_all add: chosen_fields)
  have j: "stdin ?b = Line ''3'' # Line ''hi'' # [Line ''1'']" by (simp add: init_app_def)
  have n: "lower ''hi'' \<noteq> ''exit''" by code_simp
  have l2: "llm_content ?sv (llm_log ?b) (prepare_prompt (transcript ?b) (Str ''hi'') (chat_history ?b)) =
             Inl (Error ''backend down'')"
    by simp
  have "menu_loop ?sv ?b =
        (Error ''backend down'',
         (asked ''Enter your question (or type 'exit' or CTRL+C to go back): ''
            (chosen ?b (Line ''hi'' # [Line ''1''])) [Line ''1''])
            \<lparr>llm_log := llm_log ?b @
               [(prepare_prompt (transcript ?b) (Str ''hi'') (chat_history ?b), Inl (Error ''backend down''))]\<rparr>)"
    using error_propagation[of ?sv "[]" ?b "Str []", THEN conjunct2, THEN conjunct2, THEN conjunct2, THEN conjunct2, THEN conjunct2, THEN conjunct2, THEN conjunct2, THEN conjunct1, rule_format,
        OF conjI[OF j conjI[OF n l2]]] .
  then have 2: "fst (menu_loop ?sv ?b) = Error ''backend down''" "stdin (snd (menu_loop ?sv ?b)) = [Line ''1'']"
    by (simp_all add: asked_fields)
  have k: "stdin ?d = Line ''6'' # Line ''https://youtu.be/nope'' # [Line ''1'']"
    by (simp add: init_app_def)
  have g: "fetch_video_transcript mock_services ''https://youtu.be/nope'' = Inl (Error ''no transcript'')"
    by code_simp
  have "menu_loop mock_services ?d =
        (Error ''no transcript'',
         asked ''Please enter the YouTube video URL: ''
           (chosen ?d (Line ''https://youtu.be/nope'' # [Line ''1''])) [Line ''1''])"
    using error_propagation[of mock_services "[]" ?d "Str []", THEN conjunct2, THEN conjunct2, THEN conjunct2, THEN conjunct2, THEN conjunct2, THEN conjunct2, THEN conjunct2, THEN conjunct2, THEN conjunct2, THEN conjunct1, rule_format,
        OF conjI[OF k g]] .
  then have 3: "fst (menu_loop mock_services ?d) = Error ''no transcript''"
    "stdin (snd (menu_loop mock_services ?d)) = [Line ''1'']"
    by (simp_all add: asked_fields)
  from f r i m 1 j n 2 k g 3 show ?thesis by blast
qed

text \<open>
  Claim C7. In the chat loop a line that is \<open>exit\<close> in any letter case, and an interrupt at
  the prompt or during the assistant call, end the loop normally: the action returns
  without an exception, for \<open>exit\<close> and for an interrupt at the prompt without an
  exchange with the assistant, and the menu loop goes on. An interrupt at the menu
  prompt, at the URL prompt of the change-video action or during the assistant call of a
  canned question leaves the menu loop as \<open>KeyboardInterrupt\<close>; \<open>run\<close> catches it, as it does
  one raised during the first acquisition, prints its farewell and returns.
\<close>

theorem interrupt_scopes:
  "(\<forall>q rest. stdin a = Line q # rest \<and> lower q = ''exit'' \<longrightarrow>
      chat_with_ai_loop sv a =
        (Inr (), asked ''Enter your question (or type 'exit' or CTRL+C to go back): '' a rest)) \<and>
   (\<forall>rest. stdin a = Interrupt # rest \<longrightarrow>
      chat_with_ai_loop sv a =
        (Inr (), print_py ''\<newline>Chat interrupted. Returning to menu...''
                   (asked ''Enter your question (or type 'exit' or CTRL+C to go back): '' a rest))) \<and>
   (\<forall>q rest. stdin a = Line q # rest \<and> lower q \<noteq> ''exit'' \<and>
      llm_content sv (llm_log a) (prepare_prompt (transcript a) (Str q) (chat_history a)) = Inl KeyboardInterrupt \<longrightarrow>
      fst (chat_with_ai_loop sv a) = Inr ()) \<and>
   (\<forall>q rest. stdin a = Line ''3'' # Line q # rest \<and> lower q = ''exit'' \<longrightarrow>
      menu_loop sv a =
        menu_loop sv (asked ''Enter your question (or type 'exit' or CTRL+C to go back): ''
                        (chosen a (Line q # rest)) rest)) \<and>
   (\<forall>rest. stdin a = Line ''3'' # Interrupt # rest \<longrightarrow>
      menu_loop sv a =
        menu_loop sv (print_py ''\<newline>Chat interrupted. Returning to menu...''
                       (asked ''Enter your question (or type 'exit' or CTRL+C to go back): ''
                          (chosen a (Interrupt # rest)) rest))) \<and>
   (\<forall>rest. stdin a = Interrupt # rest \<longrightarrow> menu_loop sv a = (KeyboardInterrupt, chosen a rest)) \<and>
   (\<forall>rest. stdin a = Line ''6'' # Interrupt # rest \<longrightarrow>
      menu_loop sv a =
        (KeyboardInterrupt,
         asked ''Please enter the YouTube video URL: '' (chosen a (Interrupt # rest)) rest)) \<and>
   (\<forall>k c rest. stdin a = Line k # rest \<and> (k, c) \<in> set canned \<and>
      llm_content sv (llm_log a) (prepare_prompt (transcript a) (StrList [c]) (chat_history a)) = Inl KeyboardInterrupt \<longrightarrow>
      fst (menu_loop sv a) = KeyboardInterrupt) \<and>
   (\<forall>t b. fetch_video_transcript sv url = Inr t \<and> menu_loop sv (a\<lparr>transcript := t\<rparr>) = (KeyboardInterrupt, b) \<longrightarrow>
      run sv url a = (Inr (), print_py ''\<newline>Exiting...'' b)) \<and>
   (fetch_video_transcript sv url = Inl KeyboardInterrupt \<longrightarrow>
      run sv url a = (Inr (), print_py ''\<newline>Exiting...'' a))"
proof (intro conjI allI impI; (elim conjE)?)
  fix q rest assume "stdin a = Line q # rest" "lower q = ''exit''"
  then show "chat_with_ai_loop sv a =
        (Inr (), asked ''Enter your question (or type 'exit' or CTRL+C to go back): '' a rest)"
    by (rule chat_with_ai_loop_exit)
next
  fix rest assume "stdin a = Interrupt # rest"
  then show "chat_with_ai_loop sv a =
        (Inr (), print_py ''\<newline>Chat interrupted. Returning to menu...''
                   (asked ''Enter your question (or type 'exit' or CTRL+C to go back): '' a rest))"
    by (rule chat_with_ai_loop_interrupt)
next
  fix q rest assume "stdin a = Line q # rest" "lower q \<noteq> ''exit''"
    "llm_content sv (llm_log a) (prepare_prompt (transcript a) (Str q) (chat_history a)) = Inl KeyboardInterrupt"
  then show "fst (chat_with_ai_loop sv a) = Inr ()"
    by (simp add: chat_with_ai_loop_interrupted_call)
next
  fix q rest assume a: "stdin a = Line ''3'' # Line q # rest" and q: "lower q = ''exit''"
  have "menu_loop_body sv a = chat_with_ai_loop sv (chosen a (Line q # rest))"
    by (simp add: menu_loop_body_line[OF a] map_of_menu_3 call0_def)
  also have "\<dots> = (Inr (), asked ''Enter your question (or type 'exit' or CTRL+C to go back): ''
                        (chosen a (Line q # rest)) rest)"
    using chat_with_ai_loop_exit[of "chosen a (Line q # rest)" q rest sv] q
    by (simp add: chosen_fields)
  finally show "menu_loop sv a =
        menu_loop sv (asked ''Enter your question (or type 'exit' or CTRL+C to go back): ''
                        (chosen a (Line q # rest)) rest)"
    by (rule menu_loop_continue)
next
  fix rest assume a: "stdin a = Line ''3'' # Interrupt # rest"
  have "menu_loop_body sv a = chat_with_ai_loop sv (chosen a (Interrupt # rest))"
    by (simp add: menu_loop_body_line[OF a] map_of_menu_3 call0_def)
  also have "\<dots> = (Inr (), print_py ''\<newline>Chat interrupted. Returning to menu...''
                       (asked ''Enter your question (or type 'exit' or CTRL+C to go back): ''
                          (chosen a (Interrupt # rest)) rest))"
    by (rule chat_with_ai_loop_interrupt) (simp add: chosen_fields)
  finally show "menu_loop sv a =
        menu_loop sv (print_py ''\<newline>Chat interrupted. Returning to menu...''
                       (asked ''Enter your question (or type 'exit' or CTRL+C to go back): ''
                          (chosen a (Interrupt # rest)) rest))"
    by (rule menu_loop_continue)
next
  fix rest assume "stdin a = Interrupt # rest"
  then have "menu_loop_body sv a = (Inl KeyboardInterrupt, chosen a rest)"
    by (rule menu_loop_body_interrupt)
  then show "menu_loop sv a = (KeyboardInterrupt, chosen a rest)"
    by (rule menu_loop_raise)
next
  fix rest assume a: "stdin a = Line ''6'' # Interrupt # rest"
  have "menu_loop_body sv a = change_video sv (chosen a (Interrupt # rest))"
    by (simp add: menu_loop_body_line[OF a] map_of_menu_6 call0_def)
  also have "\<dots> = (Inl KeyboardInterrupt,
         asked ''Please enter the YouTube video URL: '' (chosen a (Interrupt # rest)) rest)"
    by (simp add: change_video_def input_py_interrupt chosen_fields)
  finally show "menu_loop sv a =
        (KeyboardInterrupt,
         asked ''Please enter the YouTube video URL: '' (chosen a (Interrupt # rest)) rest)"
    by (rule menu_loop_raise)
next
  fix k c rest assume "stdin a = Line k # rest" "(k, c) \<in> set canned"
    "llm_content sv (llm_log a) (prepare_prompt (transcript a) (StrList [c]) (chat_history a)) = Inl KeyboardInterrupt"
  then show "fst (menu_loop sv a) = KeyboardInterrupt"
    by (simp add: menu_loop_canned_raises)
next
  fix t b assume "fetch_video_transcript sv url = Inr t" "menu_loop sv (a\<lparr>transcript := t\<rparr>) = (KeyboardInterrupt, b)"
  then show "run sv url a = (Inr (), print_py ''\<newline>Exiting...'' b)"
    by (simp add: run_def handle_top_def)
next
  assume "fetch_video_transcript sv url = Inl KeyboardInterrupt"
  then show "run sv url a = (Inr (), print_py ''\<newline>Exiting...'' a)"
    by (simp add: run_def handle_top_def)
qed

text \<open>The keyword \<open>exit\<close> in the chat loop, and an interrupt at the menu prompt.\<close>

theorem interrupt_scopes_witness:
  "stdin (init_app [Line ''exit'', Line ''1'']) = Line ''exit'' # [Line ''1''] \<and>
   lower ''exit'' = ''exit'' \<and>
   chat_with_ai_loop mock_services (init_app [Line ''exit'', Line ''1'']) =
     (Inr (), asked ''Enter your question (or type 'exit' or CTRL+C to go back): ''
                (init_app [Line ''exit'', Line ''1'']) [Line ''1'']) \<and>
   stdin (init_app [Interrupt, Line ''1'']) = Interrupt # [Line ''1''] \<and>
   menu_loop mock_services (init_app [Interrupt, Line ''1'']) =
     (KeyboardInterrupt, chosen (init_app [Interrupt, Line ''1'']) [Line ''1''])"
proof -
  have i: "stdin (init_app [Line ''exit'', Line ''1'']) = Line ''exit'' # [Line ''1'']"
    by (simp add: init_app_def)
  have l: "lower ''exit'' = ''exit''" by code_simp
  have j: "stdin (init_app [Interrupt, Line ''1'']) = Interrupt # [Line ''1'']"
    by (simp add: init_app_def)
  have 1: "chat_with_ai_loop mock_services (init_app [Line ''exit'', Line ''1'']) =
     (Inr (), asked ''Enter your question (or type 'exit' or CTRL+C to go back): ''
                (init_app [Line ''exit'', Line ''1'']) [Line ''1''])"
    using interrupt_scopes[of "init_app [Line ''exit'', Line ''1'']" mock_services] i l by blast
  have 2: "menu_loop mock_services (init_app [Interrupt, Line ''1'']) =
     (KeyboardInterrupt, chosen (init_app [Interrupt, Line ''1'']) [Line ''1''])"
    using interrupt_scopes[of "init_app [Interrupt, Line ''1'']" mock_services] j by blast
  from i l j 1 2 show ?thesis by blast
qed

text \<open>
  Claim C8. When the choice read is \<open>4\<close> and the backend replies, the prompt it received
  holds the canned FAQ question and the session transcript, and the last text written
  to the output is the reply as \<open>strip\<close> returns it, followed by the line break of \<open>print\<close>:
  the reply is that text between two runs of white-space characters, and that text
  neither begins nor ends with a white-space character.
\<close>

theorem faq_action:
  assumes "stdin a = Line ''4'' # rest"
    and "llm_content sv (llm_log a)
           (prepare_prompt (transcript a)
              (StrList [''provide a 5 question FAQ based on the video content'']) (chat_history a)) = Inr content"
  shows "menu_loop_body sv a =
           (Inr (), print_py (strip content)
              ((chosen a rest)\<lparr>llm_log := llm_log a @
                  [(prepare_prompt (transcript a)
                      (StrList [''provide a 5 question FAQ based on the video content'']) (chat_history a),
                    Inr content)],
                chat_history := chat_history a @
                  [(StrList [''provide a 5 question FAQ based on the video content''], strip content)]\<rparr>)) \<and>
         sublist ''provide a 5 question FAQ based on the video content''
           (prepare_prompt (transcript a)
              (StrList [''provide a 5 question FAQ based on the video content'']) (chat_history a)) \<and>
         sublist (transcript a)
           (prepare_prompt (transcript a)
              (StrList [''provide a 5 question FAQ based on the video content'']) (chat_history a)) \<and>
         last (stdout (snd (menu_loop_body sv a))) = strip content @ ''\<newline>'' \<and>
         (\<exists>l r. content = l @ strip content @ r \<and> white l \<and> white r) \<and>
         list_all (\<lambda>w. \<not> prefix w (strip content) \<and> \<not> suffix w (strip content)) white_space"
proof -
  let ?c = "''provide a 5 question FAQ based on the video content''"
  have mem: "(''4'', ?c) \<in> set canned" by (simp add: canned_def)
  have body: "menu_loop_body sv a =
           (Inr (), print_py (strip content)
              ((chosen a rest)\<lparr>llm_log := llm_log a @
                  [(prepare_prompt (transcript a) (StrList [?c]) (chat_history a), Inr content)],
                chat_history := chat_history a @ [(StrList [?c], strip content)]\<rparr>))"
    using assms(2)
    by (simp add: menu_loop_body_canned[OF assms(1) mem] ask_ai_single_question_result chosen_fields)
  have out: "last (stdout (snd (menu_loop_body sv a))) = strip content @ ''\<newline>''"
    unfolding body by (simp add: print_py_def)
  have edge: "list_all (\<lambda>w. \<not> prefix w (strip content) \<and> \<not> suffix w (strip content)) white_space"
    unfolding list_all_iff using strip_maximal by blast
  from body prompt_has_canned(2)[OF mem] prompt_has_transcript out strip_decomp[of content] edge
  show ?thesis by blast
qed

text \<open>
  The FAQ action against a backend whose reply begins with a no-break space and a space
  and ends with an em space and a line break.
\<close>

theorem faq_action_witness:
  "stdin ((init_app [Line ''4''])\<lparr>transcript := ''Hello world.\<newline>How are you?''\<rparr>) = Line ''4'' # [] \<and>
   llm_content
     (mock_services\<lparr>llm_content := \<lambda>log prompt.
        Inr ([CHR 0xC2, CHR 0xA0] @ '' Mocked reply.'' @ [CHR 0xE2, CHR 0x80, CHR 0x83, CHR 0x0A])\<rparr>)
     (llm_log ((init_app [Line ''4''])\<lparr>transcript := ''Hello world.\<newline>How are you?''\<rparr>))
     (prepare_prompt ''Hello world.\<newline>How are you?''
        (StrList [''provide a 5 question FAQ based on the video content'']) []) =
     Inr ([CHR 0xC2, CHR 0xA0] @ '' Mocked reply.'' @ [CHR 0xE2, CHR 0x80, CHR 0x83, CHR 0x0A]) \<and>
   last (stdout (snd (menu_loop_body
      (mock_services\<lparr>llm_content := \<lambda>log prompt.
        Inr ([CHR 0xC2, CHR 0xA0] @ '' Mocked reply.'' @ [CHR 0xE2, CHR 0x80, CHR 0x83, CHR 0x0A])\<rparr>)
      ((init_app [Line ''4''])\<lparr>transcript := ''Hello world.\<newline>How are you?''\<rparr>)))) = ''Mocked reply.\<newline>''"
proof -
  let ?a = "(init_app [Line ''4''])\<lparr>transcript := ''Hello world.\<newline>How are you?''\<rparr>"
  let ?c = "''provide a 5 question FAQ based on the video content''"
  let ?reply = "[CHR 0xC2, CHR 0xA0] @ '' Mocked reply.'' @ [CHR 0xE2, CHR 0x80, CHR 0x83, CHR 0x0A]"
  let ?sv = "mock_services\<lparr>llm_content := \<lambda>log prompt. Inr ?reply\<rparr>"
  have i: "stdin ?a = Line ''4'' # []" by (simp add: init_app_def)
  have l: "llm_content ?sv (llm_log ?a)
     (prepare_prompt (transcript ?a) (StrList [?c]) (chat_history ?a)) = Inr ?reply"
    by simp
  have l': "llm_content ?sv (llm_log ?a)
     (prepare_prompt ''Hello world.\<newline>How are you?'' (StrList [?c]) []) = Inr ?reply"
    by simp
  have s: "strip ?reply = ''Mocked reply.''" by code_simp
  have "last (stdout (snd (menu_loop_body ?sv ?a))) = strip ?reply @ ''\<newline>''"
    using faq_action[OF i l] by blast
  then have "last (stdout (snd (menu_loop_body ?sv ?a))) = ''Mocked reply.\<newline>''"
    unfolding s by simp
  with i l' show ?thesis by blast
qed

text \<open>
  Claim C9. For the three canned entries the table yields the question as a one-element
  list, and the dispatcher calls \<open>_ask_ai_single_question\<close> with that list. The prompt sent
  has the question line \<open>Question: ['...']\<close>, the \<open>repr\<close> of the list, and the pair appended
  to the history on a reply holds the list, which is not the plain string.
\<close>

theorem canned_question_is_a_list:
  assumes "stdin a = Line k # rest" and "(k, c) \<in> set canned"
  shows "(\<exists>d. map_of menu_options k = Some (d, AskAiSingleQuestion, [c])) \<and>
         menu_loop_body sv a = ask_ai_single_question sv (StrList [c]) (chosen a rest) \<and>
         (\<exists>reply. llm_log (snd (menu_loop_body sv a)) =
            llm_log a @ [(prepare_prompt (transcript a) (StrList [c]) (chat_history a), reply)]) \<and>
         sublist (''Question: ['' @ [CHR 0x27] @ c @ [CHR 0x27] @ '']'')
           (prepare_prompt (transcript a) (StrList [c]) (chat_history a)) \<and>
         (\<forall>content. llm_content sv (llm_log a)
              (prepare_prompt (transcript a) (StrList [c]) (chat_history a)) = Inr content \<longrightarrow>
            chat_history (snd (menu_loop_body sv a)) = chat_history a @ [(StrList [c], strip content)]) \<and>
         StrList [c] \<noteq> Str c"
proof -
  have body: "menu_loop_body sv a = ask_ai_single_question sv (StrList [c]) (chosen a rest)"
    using assms by (rule menu_loop_body_canned)
  have log: "\<exists>reply. llm_log (snd (menu_loop_body sv a)) =
            llm_log a @ [(prepare_prompt (transcript a) (StrList [c]) (chat_history a), reply)]"
    unfolding body
    by (simp add: ask_ai_single_question_result chosen_fields print_py_def split: sum.splits)
  have hist: "\<forall>content. llm_content sv (llm_log a)
              (prepare_prompt (transcript a) (StrList [c]) (chat_history a)) = Inr content \<longrightarrow>
            chat_history (snd (menu_loop_body sv a)) = chat_history a @ [(StrList [c], strip content)]"
    unfolding body
    by (simp add: ask_ai_single_question_result chosen_fields print_py_def)
  from map_of_canned[OF assms(2)] body log prompt_has_canned(1)[OF assms(2)] hist
  show ?thesis by blast
qed

text \<open>The summary entry.\<close>

theorem canned_question_is_a_list_witness:
  "stdin (init_app [Line ''2'']) = Line ''2'' # [] \<and>
   (''2'', ''provide a summary of the video content'') \<in> set canned \<and>
   sublist ''Question: ['provide a summary of the video content']''
     (prepare_prompt (transcript (init_app [Line ''2'']))
        (StrList [''provide a summary of the video content'']) (chat_history (init_app [Line ''2''])))"
proof -
  have i: "stdin (init_app [Line ''2'']) = Line ''2'' # []" by (simp add: init_app_def)
  have m: "(''2'', ''provide a summary of the video content'') \<in> set canned" by (simp add: canned_def)
  have "sublist (''Question: ['' @ [CHR 0x27] @ ''provide a summary of the video content'' @ [CHR 0x27] @ '']'')
     (prepare_prompt (transcript (init_app [Line ''2'']))
        (StrList [''provide a summary of the video content'']) (chat_history (init_app [Line ''2''])))"
    using canned_question_is_a_list[OF i m] by blast
  with i m show ?thesis by simp
qed

end
